theory Spec2Isabelle
  imports Complex_Main
begin

section \<open>Python values\<close>

text \<open>
  The exceptions the builder can raise. The finite values of a Python float are real
  numbers. \<open>round_filters\<close> and \<open>round_repeats\<close> below compute in exact arithmetic;
  \<open>round_filters_double\<close> and \<open>round_repeats_double\<close> are the same functions with every
  float operation rounded to double precision. Python integers are \<open>int\<close>.
\<close>

datatype error =
    AssertionError
  | ValueError string
  | ZeroDivisionError
  | TypeError
  | IndexError
  | OverflowError

text \<open>Python's \<open>int(x)\<close> on a float truncates towards zero.\<close>

definition py_int :: "real \<Rightarrow> int" where
  "py_int x = (if 0 \<le> x then \<lfloor>x\<rfloor> else \<lceil>x\<rceil>)"

section \<open>Image preprocessing\<close>

text \<open>
  A numpy array is its shape and its elements in row-major order. The binary operations
  of \<open>preprocess_input\<close> broadcast two arrays of the same rank: two axis lengths are
  compatible when they are equal or one of them is 1, anything else raises ValueError.
\<close>

datatype data_format = channels_first | channels_last

datatype ndarray = NDArray (arr_shape: "nat list") (arr_data: "real list")

fun broadcast_shapes :: "nat list \<Rightarrow> nat list \<Rightarrow> nat list option" where
  "broadcast_shapes [] [] = Some []"
| "broadcast_shapes (a # as) (b # bs) =
     (if a = b \<or> b = 1 then map_option ((#) a) (broadcast_shapes as bs)
      else if a = 1 then map_option ((#) b) (broadcast_shapes as bs)
      else None)"
| "broadcast_shapes _ _ = None"

fun flat_index :: "nat list \<Rightarrow> nat list \<Rightarrow> nat" where
  "flat_index (d # ds) (i # is) = (if d = 1 then 0 else i) * prod_list ds + flat_index ds is"
| "flat_index _ _ = 0"

fun indices :: "nat list \<Rightarrow> nat list list" where
  "indices [] = [[]]"
| "indices (d # ds) = concat (map (\<lambda>i. map ((#) i) (indices ds)) [0..<d])"

definition np_binop :: "(real \<Rightarrow> real \<Rightarrow> real) \<Rightarrow> ndarray \<Rightarrow> ndarray \<Rightarrow> error + ndarray" where
  "np_binop f a b =
     (case broadcast_shapes (arr_shape a) (arr_shape b) of
        None \<Rightarrow> Inl (ValueError ''operands could not be broadcast together'')
      | Some s \<Rightarrow>
          Inr (NDArray s
                 (map (\<lambda>idx. f (arr_data a ! flat_index (arr_shape a) idx)
                                (arr_data b ! flat_index (arr_shape b) idx))
                      (indices s))))"

definition IMAGENET_MEAN :: "real list" where
  "IMAGENET_MEAN = [0.485 * 255, 0.456 * 255, 0.406 * 255]"

definition IMAGENET_STDDEV :: "real list" where
  "IMAGENET_STDDEV = [0.229 * 255, 0.224 * 255, 0.225 * 255]"

text \<open>
  \<open>image_data_format\<close> is the value of the backend's \<open>K.image_data_format()\<close>, used when
  \<open>data_format\<close> is None.
\<close>

definition preprocess_input :: "data_format \<Rightarrow> ndarray \<Rightarrow> data_format option \<Rightarrow> error + ndarray" where
  "preprocess_input image_data_format x data_format =
     (if length (arr_shape x) \<noteq> 3 then Inl AssertionError
      else if last (arr_shape x) \<noteq> 3 then Inl AssertionError
      else
        let data_format' = (case data_format of None \<Rightarrow> image_data_format | Some f \<Rightarrow> f);
            mean = (if data_format' = channels_first then NDArray [3, 1, 1] IMAGENET_MEAN
                    else NDArray [1, 1, 3] IMAGENET_MEAN);
            std = (if data_format' = channels_first then NDArray [3, 1, 1] IMAGENET_STDDEV
                   else NDArray [1, 1, 3] IMAGENET_STDDEV)
        in case np_binop (-) x mean of
             Inl e \<Rightarrow> Inl e
           | Inr x' \<Rightarrow> np_binop (/) x' std)"

section \<open>Scaling utilities\<close>

text \<open>
  \<open>round_filters\<close>: \<open>not multiplier\<close> holds for None and for zero; \<open>min_depth or divisor\<close>
  takes the divisor for None and for zero; \<open>//\<close> by a zero divisor raises
  ZeroDivisionError. The divisor is a real number because the head of the network
  passes a float in that position.
\<close>

definition round_filters :: "int \<Rightarrow> real option \<Rightarrow> real \<Rightarrow> int option \<Rightarrow> error + int" where
  "round_filters filters width_coefficient depth_divisor min_depth =
     (case width_coefficient of
        None \<Rightarrow> Inr filters
      | Some multiplier \<Rightarrow>
          if multiplier = 0 then Inr filters
          else
            let divisor = depth_divisor;
                scaled = real_of_int filters * multiplier;
                min_depth' = (case min_depth of
                                None \<Rightarrow> divisor
                              | Some m \<Rightarrow> if m = 0 then divisor else real_of_int m)
            in if divisor = 0 then Inl ZeroDivisionError
               else
                 let new_filters =
                       max min_depth'
                         (real_of_int \<lfloor>real_of_int (py_int (scaled + divisor / 2)) / divisor\<rfloor>
                            * divisor);
                     new_filters' =
                       (if new_filters < 0.9 * scaled then new_filters + divisor
                        else new_filters)
                 in Inr (py_int new_filters'))"

definition round_repeats :: "int \<Rightarrow> real option \<Rightarrow> int" where
  "round_repeats repeats depth_coefficient =
     (case depth_coefficient of
        None \<Rightarrow> repeats
      | Some multiplier \<Rightarrow>
          if multiplier = 0 then repeats
          else \<lceil>multiplier * real_of_int repeats\<rceil>)"

text \<open>
  The algorithm of the specification, in its words: scale, snap with floor to a multiple
  of the divisor, floor at min_depth, add one divisor when below 90 percent of the scaled
  value, return an integer.
\<close>

definition round_filters_spec :: "int \<Rightarrow> real \<Rightarrow> int \<Rightarrow> int \<Rightarrow> int" where
  "round_filters_spec f w d m =
     (let scaled = real_of_int f * w;
          rounded = max (real_of_int m)
                      (real_of_int \<lfloor>(scaled + real_of_int d / 2) / real_of_int d\<rfloor> * real_of_int d);
          corrected = (if rounded < 0.9 * scaled then rounded + real_of_int d else rounded)
      in py_int corrected)"

text \<open>The value \<open>min_depth or divisor\<close> for an integer divisor.\<close>

definition eff_min_depth :: "int \<Rightarrow> int option \<Rightarrow> int" where
  "eff_min_depth d m = (case m of None \<Rightarrow> d | Some v \<Rightarrow> if v = 0 then d else v)"

subsection \<open>Double precision\<close>

text \<open>
  The finite values of a Python float are the real numbers \<open>m * 2 ^ e\<close> with an integer
  \<open>m\<close> of at most 53 bits and \<open>e\<close> from -1074 to 971. Every float operation of the source
  returns the exact result rounded to the nearest such number, ties to the even \<open>m\<close>.
  \<open>exponent a\<close> is the binary exponent of \<open>a\<close>, kept within the range of the normal
  numbers, so that the numbers below \<open>2 ^ -1022\<close> are rounded to multiples of \<open>2 ^ -1074\<close>;
  a result of magnitude \<open>2 ^ 1024\<close> or more is an overflow.
\<close>

definition round_half_even :: "real \<Rightarrow> int" where
  "round_half_even x =
     (let f = \<lfloor>x\<rfloor>; r = x - real_of_int f
      in if r < 1 / 2 then f
         else if 1 / 2 < r then f + 1
         else if even f then f else f + 1)"

fun exponent_from :: "real \<Rightarrow> int \<Rightarrow> nat \<Rightarrow> int" where
  "exponent_from a e 0 = e"
| "exponent_from a e (Suc n) = (if 2 powi e \<le> a then e else exponent_from a (e - 1) n)"

definition exponent :: "real \<Rightarrow> int" where
  "exponent a = exponent_from a 1023 2045"

definition round_double :: "real \<Rightarrow> real" where
  "round_double x =
     (let s = 2 powi (exponent \<bar>x\<bar> - 52)
      in real_of_int (round_half_even (x / s)) * s)"

definition overflows :: "real \<Rightarrow> bool" where
  "overflows x \<longleftrightarrow> 2 ^ 1024 \<le> \<bar>x\<bar>"

text \<open>
  \<open>round_filters\<close> for an integer divisor, with every float operation rounded:
  \<open>filters *= multiplier\<close> converts the integer and multiplies, \<open>divisor / 2\<close> is the
  true division of integers, the sum is a float sum, and \<open>//\<close>, \<open>*\<close>, \<open>max\<close> and \<open>+=\<close> work on
  integers. The literal \<open>0.9\<close> is the double nearest to 9/10, and Python compares an
  integer with a float exactly. Converting an integer that is too large, and \<open>int\<close> of
  the infinity that an overflowing product or sum gives, raise OverflowError. The width
  coefficient is a finite float.
\<close>

definition round_filters_double :: "int \<Rightarrow> real option \<Rightarrow> int \<Rightarrow> int option \<Rightarrow> error + int" where
  "round_filters_double filters width_coefficient depth_divisor min_depth =
     (case width_coefficient of
        None \<Rightarrow> Inr filters
      | Some multiplier \<Rightarrow>
          if multiplier = 0 then Inr filters
          else if overflows (round_double (real_of_int filters)) then Inl OverflowError
          else
            let divisor = depth_divisor;
                scaled = round_double (round_double (real_of_int filters) * multiplier);
                min_depth' = (case min_depth of
                                None \<Rightarrow> divisor
                              | Some m \<Rightarrow> if m = 0 then divisor else m);
                half = round_double (real_of_int divisor / 2);
                y = round_double (scaled + half)
            in if overflows half \<or> overflows scaled \<or> overflows y then Inl OverflowError
               else if divisor = 0 then Inl ZeroDivisionError
               else
                 let new_filters = max min_depth' (py_int y div divisor * divisor);
                     new_filters' =
                       (if real_of_int new_filters < round_double (round_double 0.9 * scaled)
                        then new_filters + divisor
                        else new_filters)
                 in Inr new_filters')"

text \<open>
  \<open>round_repeats\<close> with the product rounded: \<open>multiplier * repeats\<close> converts the integer
  and multiplies; \<open>math.ceil\<close> of an infinite product raises OverflowError.
\<close>

definition round_repeats_double :: "int \<Rightarrow> real option \<Rightarrow> error + int" where
  "round_repeats_double repeats depth_coefficient =
     (case depth_coefficient of
        None \<Rightarrow> Inr repeats
      | Some multiplier \<Rightarrow>
          if multiplier = 0 then Inr repeats
          else if overflows (round_double (real_of_int repeats)) then Inl OverflowError
          else
            let product = round_double (multiplier * round_double (real_of_int repeats))
            in if overflows product then Inl OverflowError
               else Inr \<lceil>product\<rceil>)"

text \<open>
  The algorithm of the specification with its float operations rounded as the program
  rounds them: the product, the sum with half the divisor, and 90 percent of the
  product; the division under the floor is exact.
\<close>

definition round_filters_rounded :: "int \<Rightarrow> real \<Rightarrow> int \<Rightarrow> int \<Rightarrow> int" where
  "round_filters_rounded f w d m =
     (let scaled = round_double (round_double (real_of_int f) * w);
          y = round_double (scaled + round_double (real_of_int d / 2));
          rounded = max (real_of_int m) (real_of_int \<lfloor>y / real_of_int d\<rfloor> * real_of_int d);
          corrected = (if rounded < round_double (round_double 0.9 * scaled)
                       then rounded + real_of_int d else rounded)
      in py_int corrected)"

text \<open>When a float operation of \<open>round_filters\<close> overflows.\<close>

definition float_overflow :: "int \<Rightarrow> real \<Rightarrow> int \<Rightarrow> bool" where
  "float_overflow f w d =
     (let scaled = round_double (round_double (real_of_int f) * w);
          half = round_double (real_of_int d / 2)
      in overflows (round_double (real_of_int f)) \<or> overflows half \<or> overflows scaled
         \<or> overflows (round_double (scaled + half)))"

section \<open>The computation graph\<close>

text \<open>
  The layers of the framework are uninterpreted constructors: building a network is
  building a term. A layer carries the arguments the source passes to it (padding is
  always \<open>same\<close> and the initialisers are constants, so they are left out).
\<close>

type_synonym shape = "int option list"

datatype layer =
    Conv2D int "int list" "int list" bool
  | BatchNormalization int real real
  | Swish
  | DepthwiseConv2D "int list" "int list option"
  | SpatialMean "int list"
  | Activation string
  | DropConnect real
  | GlobalAveragePooling2D "data_format option"
  | GlobalMaxPooling2D
  | Dropout real
  | Dense int

datatype merge = Multiply | Add

datatype tensor =
    Input shape "string option"
  | App layer tensor
  | Merge merge tensor tensor

section \<open>Squeeze-excitation and mobile inverted bottleneck blocks\<close>

definition SEBlock ::
  "data_format \<Rightarrow> int \<Rightarrow> real \<Rightarrow> int \<Rightarrow> data_format option \<Rightarrow> tensor \<Rightarrow> tensor" where
  "SEBlock image_data_format input_filters se_ratio expand_ratio data_format inputs =
     (let data_format' = (case data_format of None \<Rightarrow> image_data_format | Some f \<Rightarrow> f);
          num_reduced_filters = max 1 (py_int (real_of_int input_filters * se_ratio));
          filters = input_filters * expand_ratio;
          spatial_dims = (if data_format' = channels_first then [2, 3] else [1, 2]);
          x = inputs;
          x = App (SpatialMean spatial_dims) x;
          x = App (Conv2D num_reduced_filters [1, 1] [1, 1] True) x;
          x = App Swish x;
          x = App (Conv2D filters [1, 1] [1, 1] True) x;
          x = App (Activation ''sigmoid'') x
      in Merge Multiply x inputs)"

text \<open>
  The part of \<open>MBConvBlock\<close> before the skip connection: expansion, depthwise
  convolution, squeeze-excitation and the output projection.
\<close>

definition mb_transform ::
  "data_format \<Rightarrow> int \<Rightarrow> int \<Rightarrow> int \<Rightarrow> int list option \<Rightarrow> int \<Rightarrow> real option
     \<Rightarrow> real \<Rightarrow> real \<Rightarrow> data_format option \<Rightarrow> tensor \<Rightarrow> tensor" where
  "mb_transform image_data_format input_filters output_filters kernel_size strides
       expand_ratio se_ratio batch_norm_momentum batch_norm_epsilon data_format inputs =
     (let data_format' = (case data_format of None \<Rightarrow> image_data_format | Some f \<Rightarrow> f);
          channel_axis = (if data_format' = channels_first then 1 else - 1);
          has_se = (case se_ratio of None \<Rightarrow> False | Some r \<Rightarrow> 0 < r \<and> r \<le> 1);
          filters = input_filters * expand_ratio;
          bn = BatchNormalization channel_axis batch_norm_momentum batch_norm_epsilon;
          x = (if expand_ratio \<noteq> 1
               then App Swish (App bn (App (Conv2D filters [1, 1] [1, 1] False) inputs))
               else inputs);
          x = App (DepthwiseConv2D [kernel_size, kernel_size] strides) x;
          x = App bn x;
          x = App Swish x;
          x = (case se_ratio of
                 None \<Rightarrow> x
               | Some r \<Rightarrow>
                   if has_se
                   then SEBlock image_data_format input_filters r expand_ratio (Some data_format') x
                   else x);
          x = App (Conv2D output_filters [1, 1] [1, 1] False) x
      in App bn x)"

text \<open>
  \<open>all(s == 1 for s in strides)\<close> is evaluated only when \<open>id_skip\<close> holds, and raises
  TypeError on \<open>strides = None\<close>.
\<close>

definition MBConvBlock ::
  "data_format \<Rightarrow> int \<Rightarrow> int \<Rightarrow> int \<Rightarrow> int list option \<Rightarrow> int \<Rightarrow> real option
     \<Rightarrow> bool \<Rightarrow> real \<Rightarrow> real \<Rightarrow> real \<Rightarrow> data_format option \<Rightarrow> tensor \<Rightarrow> error + tensor" where
  "MBConvBlock image_data_format input_filters output_filters kernel_size strides
       expand_ratio se_ratio id_skip drop_connect_rate batch_norm_momentum batch_norm_epsilon
       data_format inputs =
     (let x = mb_transform image_data_format input_filters output_filters kernel_size strides
                expand_ratio se_ratio batch_norm_momentum batch_norm_epsilon data_format inputs
      in if id_skip then
           (case strides of
              None \<Rightarrow> Inl TypeError
            | Some ss \<Rightarrow>
                if list_all (\<lambda>s. s = 1) ss \<and> input_filters = output_filters then
                  (let x' = (if drop_connect_rate \<noteq> 0 then App (DropConnect drop_connect_rate) x
                             else x)
                   in Inr (Merge Add x' inputs))
                else Inr x)
         else Inr x)"

text \<open>The layers of a graph, and whether its last operation adds \<open>inputs\<close> to a path.\<close>

fun layers_of :: "tensor \<Rightarrow> layer list" where
  "layers_of (Input s t) = []"
| "layers_of (App l x) = l # layers_of x"
| "layers_of (Merge m x y) = layers_of x @ layers_of y"

fun merges_of :: "tensor \<Rightarrow> merge list" where
  "merges_of (Input s t) = []"
| "merges_of (App l x) = merges_of x"
| "merges_of (Merge m x y) = m # merges_of x @ merges_of y"

fun is_DropConnect :: "layer \<Rightarrow> bool" where
  "is_DropConnect (DropConnect r) = True"
| "is_DropConnect _ = False"

section \<open>Block configuration\<close>

text \<open>
  Modelled from the spec: the class \<open>BlockArgs\<close> of \<open>config.py\<close>, which is not among the
  sources. Its fields are those named in the data model of the specification and read
  or written by \<open>EfficientNet\<close>; \<open>strides\<close> may be None, as the stride-counting loop
  checks.
\<close>

record block_args =
  input_filters :: int
  output_filters :: int
  kernel_size :: int
  strides :: "int list option"
  num_repeat :: int
  se_ratio :: "real option"
  expand_ratio :: int
  identity_skip :: bool

section \<open>The network assembler\<close>

text \<open>
  The arguments of \<open>EfficientNet\<close> other than the block list. \<open>input_tensor\<close> is either
  a tensor of the backend, which is wrapped in an input layer, or a Keras tensor, which is
  used as it is.
\<close>

datatype input_tensor = RawTensor string | KerasTensor tensor

record config =
  input_shape :: "shape option"
  width_coefficient :: "real option"
  depth_coefficient :: "real option"
  include_top :: bool
  weights :: "string option"
  input_tensor :: "input_tensor option"
  pooling :: "string option"
  classes :: int
  dropout_rate :: real
  drop_connect_rate :: real
  batch_norm_momentum :: real
  batch_norm_epsilon :: real
  depth_divisor :: real
  min_depth :: "int option"
  data_format :: "data_format option"
  default_size :: "int option"

datatype model_inputs = Direct tensor | SourceInputs input_tensor

datatype weights_source = Downloaded string string | LocalFile string

record model =
  model_inputs :: model_inputs
  model_outputs :: tensor
  loaded_weights :: "weights_source option"

text \<open>
  \<open>_obtain_input_shape\<close> belongs to the library \<open>keras_applications\<close>; the assembler takes
  it as a parameter. Its arguments are the input shape, the default size, the minimum
  size, the data format, \<open>require_flatten\<close> and the weights.
\<close>

type_synonym validator =
  "shape option \<Rightarrow> int \<Rightarrow> int \<Rightarrow> data_format \<Rightarrow> bool \<Rightarrow> string option \<Rightarrow> error + shape"

text \<open>The loop that counts the strides; \<open>strides[0]\<close> of an empty list raises IndexError.\<close>

fun count_strides :: "block_args list \<Rightarrow> nat \<Rightarrow> error + nat" where
  "count_strides [] stride_count = Inr stride_count"
| "count_strides (ba # rest) stride_count =
     (case strides ba of
        None \<Rightarrow> count_strides rest stride_count
      | Some [] \<Rightarrow> Inl IndexError
      | Some (s # _) \<Rightarrow>
          if 1 < s then count_strides rest (stride_count + 1)
          else count_strides rest stride_count)"

text \<open>\<open>min_size = int(2 ** stride_count)\<close>, the count starting at 1.\<close>

definition min_size :: "block_args list \<Rightarrow> error + int" where
  "min_size bl = (case count_strides bl 1 of Inl e \<Rightarrow> Inl e | Inr n \<Rightarrow> Inr (2 ^ n))"

text \<open>
  The body of the loop over the block list is state passing: the state is the block
  configuration, which the source mutates in place, and the tensor built so far; the
  first component is the exception raised, if any, with the state as it was then.
  The objects of the block list are taken to be distinct.
\<close>

fun repeat_blocks ::
  "nat \<Rightarrow> data_format \<Rightarrow> config \<Rightarrow> data_format \<Rightarrow> block_args \<Rightarrow> tensor
     \<Rightarrow> error option \<times> block_args \<times> tensor" where
  "repeat_blocks 0 K cfg df ba x = (None, ba, x)"
| "repeat_blocks (Suc n) K cfg df ba x =
     (case MBConvBlock K (input_filters ba) (output_filters ba) (kernel_size ba) (strides ba)
             (expand_ratio ba) (se_ratio ba) (identity_skip ba) (drop_connect_rate cfg)
             (batch_norm_momentum cfg) (batch_norm_epsilon cfg) (Some df) x of
        Inl e \<Rightarrow> (Some e, ba, x)
      | Inr x' \<Rightarrow> repeat_blocks n K cfg df ba x')"

definition build_stage ::
  "data_format \<Rightarrow> config \<Rightarrow> data_format \<Rightarrow> block_args \<Rightarrow> tensor
     \<Rightarrow> error option \<times> block_args \<times> tensor" where
  "build_stage K cfg df ba x =
     (if \<not> 0 < num_repeat ba then (Some AssertionError, ba, x)
      else
        (case round_filters (input_filters ba) (width_coefficient cfg) (depth_divisor cfg)
                (min_depth cfg) of
           Inl e \<Rightarrow> (Some e, ba, x)
         | Inr i \<Rightarrow>
             (let ba1 = ba\<lparr>input_filters := i\<rparr> in
              (case round_filters (output_filters ba1) (width_coefficient cfg)
                      (depth_divisor cfg) (min_depth cfg) of
                 Inl e \<Rightarrow> (Some e, ba1, x)
               | Inr out \<Rightarrow>
                   (let ba2 = ba1\<lparr>output_filters := out\<rparr>;
                        ba3 = ba2\<lparr>num_repeat :=
                                   round_repeats (num_repeat ba2) (depth_coefficient cfg)\<rparr>
                    in (case MBConvBlock K (input_filters ba3) (output_filters ba3)
                                (kernel_size ba3) (strides ba3) (expand_ratio ba3) (se_ratio ba3)
                                (identity_skip ba3) (drop_connect_rate cfg)
                                (batch_norm_momentum cfg) (batch_norm_epsilon cfg) (Some df) x of
                          Inl e \<Rightarrow> (Some e, ba3, x)
                        | Inr x1 \<Rightarrow>
                            (let ba4 = (if 1 < num_repeat ba3
                                        then ba3\<lparr>input_filters := output_filters ba3,
                                                 strides := Some [1, 1]\<rparr>
                                        else ba3)
                             in repeat_blocks (nat (num_repeat ba4 - 1)) K cfg df ba4 x1)))))))"

fun build_blocks ::
  "data_format \<Rightarrow> config \<Rightarrow> data_format \<Rightarrow> block_args list \<Rightarrow> tensor
     \<Rightarrow> error option \<times> block_args list \<times> tensor" where
  "build_blocks K cfg df [] x = (None, [], x)"
| "build_blocks K cfg df (ba # rest) x =
     (case build_stage K cfg df ba x of
        (Some e, ba', x') \<Rightarrow> (Some e, ba' # rest, x')
      | (None, ba', x') \<Rightarrow>
          (case build_blocks K cfg df rest x' of
             (r, rest', x'') \<Rightarrow> (r, ba' # rest', x'')))"

text \<open>
  The filter count of the head: \<open>depth_coefficient\<close> is passed where \<open>round_filters\<close>
  expects the divisor. With a depth coefficient of None, \<open>divisor / 2\<close> raises TypeError
  unless \<open>round_filters\<close> has returned before.
\<close>

definition head_filters :: "config \<Rightarrow> error + int" where
  "head_filters cfg =
     (case depth_coefficient cfg of
        Some dc \<Rightarrow> round_filters 1280 (width_coefficient cfg) dc (min_depth cfg)
      | None \<Rightarrow>
          (case width_coefficient cfg of
             None \<Rightarrow> Inr 1280
           | Some w \<Rightarrow> if w = 0 then Inr 1280 else Inl TypeError))"

definition top :: "config \<Rightarrow> data_format \<Rightarrow> tensor \<Rightarrow> tensor" where
  "top cfg df x =
     (if include_top cfg then
        (let x = App (GlobalAveragePooling2D (Some df)) x;
             x = (if 0 < dropout_rate cfg then App (Dropout (dropout_rate cfg)) x else x);
             x = App (Dense (classes cfg)) x
         in App (Activation ''softmax'') x)
      else if pooling cfg = Some ''avg'' then App (GlobalAveragePooling2D None) x
      else if pooling cfg = Some ''max'' then App GlobalMaxPooling2D x
      else x)"

definition release_url :: "string \<Rightarrow> string" where
  "release_url f =
     ''https://github.com/titu1994/keras-efficientnets/releases/download/v0.1/'' @ f"

text \<open>
  Loading the weights, after the model has been built. The download and the reading of
  the file are recorded in the model; their failures are outside this model.
\<close>

definition load_weights :: "config \<Rightarrow> int \<Rightarrow> model \<Rightarrow> error + model" where
  "load_weights cfg dsize m =
     (if weights cfg = Some ''imagenet'' then
        (if dsize = 224 then
           Inr (m\<lparr>loaded_weights := Some
                  (if include_top cfg
                   then Downloaded ''efficientnet-b0.h5'' (release_url ''efficientnet-b0.h5'')
                   else Downloaded ''efficientnet-b0_notop.h5.h5''
                          (release_url ''efficientnet-b0_notop.h5''))\<rparr>)
         else if dsize = 240 then
           Inr (m\<lparr>loaded_weights := Some
                  (if include_top cfg
                   then Downloaded ''efficientnet-b1.h5'' (release_url ''efficientnet-b1.h5'')
                   else Downloaded ''efficientnet-b1_notop.h5.h5''
                          (release_url ''efficientnet-b1_notop.h5''))\<rparr>)
         else if dsize = 260 then
           Inr (m\<lparr>loaded_weights := Some
                  (if include_top cfg
                   then Downloaded ''efficientnet-b2.h5'' (release_url ''efficientnet-b2.h5'')
                   else Downloaded ''efficientnet-b2_notop.h5.h5''
                          (release_url ''efficientnet-b2_notop.h5''))\<rparr>)
         else if dsize = 300 then
           Inr (m\<lparr>loaded_weights := Some
                  (if include_top cfg
                   then Downloaded ''efficientnet-b3.h5'' (release_url ''efficientnet-b3.h5'')
                   else Downloaded ''efficientnet-b3_notop.h5''
                          (release_url ''efficientnet-b3_notop.h5''))\<rparr>)
         else Inl (ValueError ''ImageNet weights can only be loaded with EfficientNetB0-7''))
      else
        (case weights cfg of
           None \<Rightarrow> Inr m
         | Some path \<Rightarrow> Inr (m\<lparr>loaded_weights := Some (LocalFile path)\<rparr>)))"

text \<open>
  \<open>EfficientNet\<close> returns three things: the model or the exception raised; the caller's
  block list as the call leaves it; and the tensor that had been built when the call
  ended, None when no layer had been constructed. \<open>build_model\<close> is the function up to
  and including \<open>Model(inputs, outputs)\<close>, with its stem and head parts as functions of
  their own; the rest of it loads the weights.
\<close>

definition batch_norm :: "config \<Rightarrow> data_format \<Rightarrow> layer" where
  "batch_norm cfg df =
     BatchNormalization (if df = channels_first then 1 else - 1)
       (batch_norm_momentum cfg) (batch_norm_epsilon cfg)"

definition network_inputs :: "config \<Rightarrow> shape \<Rightarrow> tensor" where
  "network_inputs cfg shape =
     (case input_tensor cfg of
        None \<Rightarrow> Input shape None
      | Some (RawTensor t) \<Rightarrow> Input shape (Some t)
      | Some (KerasTensor t) \<Rightarrow> t)"

definition stem :: "config \<Rightarrow> data_format \<Rightarrow> int \<Rightarrow> tensor \<Rightarrow> tensor" where
  "stem cfg df stem_filters inputs =
     (let x = App (Conv2D stem_filters [3, 3] [2, 2] False) inputs;
          x = App (batch_norm cfg df) x
      in App Swish x)"

definition head :: "config \<Rightarrow> data_format \<Rightarrow> int \<Rightarrow> tensor \<Rightarrow> tensor" where
  "head cfg df hf x =
     (let x = App (Conv2D hf [1, 1] [1, 1] False) x;
          x = App (batch_norm cfg df) x
      in App Swish x)"

definition build_model ::
  "validator \<Rightarrow> data_format \<Rightarrow> config \<Rightarrow> block_args list
     \<Rightarrow> (error + model) \<times> block_args list \<times> tensor option" where
  "build_model obtain_input_shape K cfg block_args_list =
     (let df = (case data_format cfg of None \<Rightarrow> K | Some f \<Rightarrow> f);
          dsize = (case default_size cfg of None \<Rightarrow> 224 | Some s \<Rightarrow> s)
      in (case min_size block_args_list of
            Inl e \<Rightarrow> (Inl e, block_args_list, None)
          | Inr msize \<Rightarrow>
             (case obtain_input_shape (input_shape cfg) dsize msize df
                     (include_top cfg) (weights cfg) of
                Inl e \<Rightarrow> (Inl e, block_args_list, None)
              | Inr shape \<Rightarrow>
                 (let inputs = network_inputs cfg shape
                  in (case round_filters 32 (width_coefficient cfg) (depth_divisor cfg)
                             (min_depth cfg) of
                        Inl e \<Rightarrow> (Inl e, block_args_list, Some inputs)
                      | Inr stem_filters \<Rightarrow>
                         (case build_blocks K cfg df block_args_list
                                 (stem cfg df stem_filters inputs) of
                            (Some e, bl', x') \<Rightarrow> (Inl e, bl', Some x')
                          | (None, bl', x') \<Rightarrow>
                             (case head_filters cfg of
                                Inl e \<Rightarrow> (Inl e, bl', Some x')
                              | Inr hf \<Rightarrow>
                                 (let outputs = top cfg df (head cfg df hf x');
                                      inputs' = (case input_tensor cfg of
                                                   None \<Rightarrow> Direct inputs
                                                 | Some t \<Rightarrow> SourceInputs t)
                                  in (Inr \<lparr>model_inputs = inputs', model_outputs = outputs,
                                            loaded_weights = None\<rparr>,
                                      bl', Some outputs)))))))))"

definition EfficientNet ::
  "validator \<Rightarrow> data_format \<Rightarrow> config \<Rightarrow> block_args list
     \<Rightarrow> (error + model) \<times> block_args list \<times> tensor option" where
  "EfficientNet obtain_input_shape K cfg block_args_list =
     (case build_model obtain_input_shape K cfg block_args_list of
        (Inl e, bl', g) \<Rightarrow> (Inl e, bl', g)
      | (Inr m, bl', g) \<Rightarrow>
          (case load_weights cfg (case default_size cfg of None \<Rightarrow> 224 | Some s \<Rightarrow> s) m of
             Inl e \<Rightarrow> (Inl e, bl', g)
           | Inr m' \<Rightarrow> (Inr m', bl', g)))"

text \<open>
  The variants call \<open>EfficientNet\<close> with their coefficients and default size and leave
  the remaining arguments at their defaults. \<open>DEFAULT_BLOCK_LIST\<close> is defined in
  \<open>config.py\<close>, which is not among the sources, and is a parameter here.
\<close>

definition variant_config ::
  "real \<Rightarrow> real \<Rightarrow> int \<Rightarrow> shape option \<Rightarrow> bool \<Rightarrow> string option \<Rightarrow> input_tensor option
     \<Rightarrow> string option \<Rightarrow> int \<Rightarrow> real \<Rightarrow> real \<Rightarrow> data_format option \<Rightarrow> config" where
  "variant_config w d dsize ish itop wts itensor pool cls drate dconn df =
     \<lparr>input_shape = ish, width_coefficient = Some w, depth_coefficient = Some d,
      include_top = itop, weights = wts, input_tensor = itensor, pooling = pool,
      classes = cls, dropout_rate = drate, drop_connect_rate = dconn,
      batch_norm_momentum = 0.99, batch_norm_epsilon = 0.001, depth_divisor = 8,
      min_depth = None, data_format = df, default_size = Some dsize\<rparr>"

definition EfficientNetB0 ::
  "validator \<Rightarrow> data_format \<Rightarrow> block_args list \<Rightarrow> shape option \<Rightarrow> bool \<Rightarrow> string option
     \<Rightarrow> input_tensor option \<Rightarrow> string option \<Rightarrow> int \<Rightarrow> real \<Rightarrow> real \<Rightarrow> data_format option
     \<Rightarrow> (error + model) \<times> block_args list \<times> tensor option" where
  "EfficientNetB0 obtain_input_shape K DEFAULT_BLOCK_LIST ish itop wts itensor pool cls drate
       dconn df =
     EfficientNet obtain_input_shape K
       (variant_config 1.0 1.0 224 ish itop wts itensor pool cls drate dconn df)
       DEFAULT_BLOCK_LIST"

definition EfficientNetB1 ::
  "validator \<Rightarrow> data_format \<Rightarrow> block_args list \<Rightarrow> shape option \<Rightarrow> bool \<Rightarrow> string option
     \<Rightarrow> input_tensor option \<Rightarrow> string option \<Rightarrow> int \<Rightarrow> real \<Rightarrow> real \<Rightarrow> data_format option
     \<Rightarrow> (error + model) \<times> block_args list \<times> tensor option" where
  "EfficientNetB1 obtain_input_shape K DEFAULT_BLOCK_LIST ish itop wts itensor pool cls drate
       dconn df =
     EfficientNet obtain_input_shape K
       (variant_config 1.0 1.1 240 ish itop wts itensor pool cls drate dconn df)
       DEFAULT_BLOCK_LIST"

definition EfficientNetB4 ::
  "validator \<Rightarrow> data_format \<Rightarrow> block_args list \<Rightarrow> shape option \<Rightarrow> bool \<Rightarrow> string option
     \<Rightarrow> input_tensor option \<Rightarrow> string option \<Rightarrow> int \<Rightarrow> real \<Rightarrow> real \<Rightarrow> data_format option
     \<Rightarrow> (error + model) \<times> block_args list \<times> tensor option" where
  "EfficientNetB4 obtain_input_shape K DEFAULT_BLOCK_LIST ish itop wts itensor pool cls drate
       dconn df =
     EfficientNet obtain_input_shape K
       (variant_config 1.4 1.8 380 ish itop wts itensor pool cls drate dconn df)
       DEFAULT_BLOCK_LIST"

text \<open>
  The shape of a tensor without its batch axis, for channels-last data, as the layers of
  the framework define it: a convolution with \<open>same\<close> padding divides each spatial length
  by its stride, rounding up, and sets the channels; global pooling keeps the channels
  only.
\<close>

definition conv_out :: "int option \<Rightarrow> int \<Rightarrow> int option" where
  "conv_out n s = map_option (\<lambda>v. (v + s - 1) div s) n"

fun layer_shape :: "layer \<Rightarrow> shape \<Rightarrow> shape" where
  "layer_shape (Conv2D f k st b) s = map2 conv_out (butlast s) st @ [Some f]"
| "layer_shape (DepthwiseConv2D k st) s =
     map2 conv_out (butlast s) (case st of None \<Rightarrow> [1, 1] | Some ss \<Rightarrow> ss) @ [last s]"
| "layer_shape (SpatialMean ax) s = map (\<lambda>_. Some 1) (butlast s) @ [last s]"
| "layer_shape (GlobalAveragePooling2D f) s = [last s]"
| "layer_shape GlobalMaxPooling2D s = [last s]"
| "layer_shape (Dense n) s = butlast s @ [Some n]"
| "layer_shape _ s = s"

fun shape_of :: "tensor \<Rightarrow> shape" where
  "shape_of (Input s t) = s"
| "shape_of (App l x) = layer_shape l (shape_of x)"
| "shape_of (Merge Multiply x y) = shape_of y"
| "shape_of (Merge Add x y) = shape_of x"

text \<open>
  The count of the specification: the stages whose first stride exceeds 1; and when a
  shape is smaller than a minimum size along a spatial axis.
\<close>

definition strided :: "block_args \<Rightarrow> bool" where
  "strided ba = (case strides ba of Some (s # _) \<Rightarrow> 1 < s | _ \<Rightarrow> False)"

fun dim_less :: "int option \<Rightarrow> int \<Rightarrow> bool" where
  "dim_less None n = False"
| "dim_less (Some v) n = (v < n)"

fun too_small :: "data_format \<Rightarrow> shape \<Rightarrow> int \<Rightarrow> bool" where
  "too_small channels_first [c, h, w] n = (dim_less h n \<or> dim_less w n)"
| "too_small channels_last [h, w, c] n = (dim_less h n \<or> dim_less w n)"
| "too_small _ _ n = False"

text \<open>
  Modelled from the spec: \<open>_obtain_input_shape\<close> is not among the sources. This
  validator does what the specification asks of it and no more: it rejects a given shape
  that is smaller than the minimum size along a spatial axis, and derives the default
  shape when none is given. It serves to run the assembler on concrete inputs.
\<close>

definition check_min_size :: validator where
  "check_min_size ish dsize msize df require_flatten wts =
     (case ish of
        None \<Rightarrow>
          Inr (if df = channels_first then [Some 3, Some dsize, Some dsize]
               else [Some dsize, Some dsize, Some 3])
      | Some s \<Rightarrow>
          if too_small df s msize then Inl (ValueError ''Input size must be at least min_size'')
          else Inr s)"

text \<open>
  Modelled from the spec: \<open>_obtain_input_shape\<close> is not among the sources; the
  specification has it validate or derive the input shape against the minimum size and
  the shape that the pretrained weights require. The definition follows the function of
  that name in \<open>imagenet_utils.py\<close> of the library \<open>keras_applications\<close>, which the source
  imports. A shape is a tuple; an empty tuple counts as no shape where the library tests
  \<open>if input_shape\<close>. With the ImageNet weights and \<open>require_flatten\<close> the library returns
  the default shape, or raises when another shape is given, before it comes to its test
  of the minimum size. The warnings of the library have no effect and are left out.
\<close>

definition static_shape :: "bool \<Rightarrow> shape \<Rightarrow> error + shape" where
  "static_shape require_flatten s =
     (if require_flatten \<and> None \<in> set s
      then Inl (ValueError ''If `include_top` is True, you should specify a static `input_shape`.'')
      else Inr s)"

definition obtain_input_shape :: validator where
  "obtain_input_shape ish dsize msize df require_flatten wts =
     (let given = (case ish of None \<Rightarrow> [] | Some s \<Rightarrow> s);
          default_shape =
            (if wts \<noteq> Some ''imagenet'' \<and> given \<noteq> [] \<and> length given = 3 then
               (if df = channels_first then [given ! 0, Some dsize, Some dsize]
                else [Some dsize, Some dsize, given ! 2])
             else
               (if df = channels_first then [Some 3, Some dsize, Some dsize]
                else [Some dsize, Some dsize, Some 3]))
      in if wts = Some ''imagenet'' \<and> require_flatten then
           (case ish of
              None \<Rightarrow> Inr default_shape
            | Some s \<Rightarrow>
                if s \<noteq> default_shape
                then Inl (ValueError ''When setting `include_top=True` and loading `imagenet` weights, `input_shape` should be the default shape.'')
                else Inr default_shape)
         else if given \<noteq> [] then
           (if length given \<noteq> 3
            then Inl (ValueError ''`input_shape` must be a tuple of three integers.'')
            else if df = channels_first then
              (if given ! 0 \<noteq> Some 3 \<and> wts = Some ''imagenet''
               then Inl (ValueError ''The input must have 3 channels'')
               else if dim_less (given ! 1) msize \<or> dim_less (given ! 2) msize
               then Inl (ValueError ''Input size must be at least min_size'')
               else static_shape require_flatten given)
            else
              (if given ! 2 \<noteq> Some 3 \<and> wts = Some ''imagenet''
               then Inl (ValueError ''The input must have 3 channels'')
               else if dim_less (given ! 0) msize \<or> dim_less (given ! 1) msize
               then Inl (ValueError ''Input size must be at least min_size'')
               else static_shape require_flatten given))
         else if require_flatten then static_shape require_flatten default_shape
         else static_shape require_flatten
                (if df = channels_first then [Some 3, None, None] else [None, None, Some 3]))"

text \<open>
  A block list of eight stages that each halve the resolution, for which the minimum
  size is 512.
\<close>

definition eight_strided :: "block_args list" where
  "eight_strided =
     replicate 8
       \<lparr>input_filters = 32, output_filters = 32, kernel_size = 3, strides = Some [2, 2],
        num_repeat = 1, se_ratio = Some 0.25, expand_ratio = 6, identity_skip = True\<rparr>"

text \<open>
  A block list of two stages, for running the assembler: the first keeps the
  resolution, the second halves it and is repeated.
\<close>

definition two_stages :: "block_args list" where
  "two_stages =
     [\<lparr>input_filters = 32, output_filters = 16, kernel_size = 3, strides = Some [1, 1],
       num_repeat = 1, se_ratio = Some 0.25, expand_ratio = 1, identity_skip = True\<rparr>,
      \<lparr>input_filters = 16, output_filters = 24, kernel_size = 3, strides = Some [2, 2],
       num_repeat = 2, se_ratio = Some 0.25, expand_ratio = 6, identity_skip = True\<rparr>]"

section \<open>Properties of the scaling utilities\<close>

lemma py_int_of_int: "py_int (real_of_int k) = k" by (simp add: py_int_def)

lemma floor_trunc_div:
  assumes "0 < d"
  shows "0 \<le> x \<Longrightarrow> \<lfloor>real_of_int (py_int x) / real_of_int d\<rfloor> = \<lfloor>x / real_of_int d\<rfloor>"
  using assms by (simp add: py_int_def floor_divide_real_eq_div floor_divide_of_int_eq)

lemma floor_trunc_div_neg:
  assumes "0 < d" "x < 0"
  shows "\<lfloor>real_of_int (py_int x) / real_of_int d\<rfloor> \<le> 0"
proof -
  have "py_int x \<le> 0" using assms by (simp add: py_int_def)
  then have "real_of_int (py_int x) / real_of_int d \<le> 0" using assms
    by (simp add: divide_le_0_iff)
  then show ?thesis by simp
qed

lemma floor_div_neg:
  assumes "0 < d" "x < 0"
  shows "\<lfloor>x / real_of_int d\<rfloor> \<le> 0"
proof -
  have "x / real_of_int d \<le> 0" using assms by (simp add: divide_le_0_iff)
  then show ?thesis by simp
qed

lemma max_snap_eq:
  assumes "0 < d" "0 < m"
  shows "max (real_of_int m) (real_of_int \<lfloor>real_of_int (py_int x) / real_of_int d\<rfloor> * real_of_int d)
       = max (real_of_int m) (real_of_int \<lfloor>x / real_of_int d\<rfloor> * real_of_int d)"
proof (cases "0 \<le> x")
  case True
  then show ?thesis using assms by (simp add: floor_trunc_div)
next
  case False
  then have neg: "x < 0" by simp
  have a: "\<lfloor>real_of_int (py_int x) / real_of_int d\<rfloor> * d \<le> 0"
    using floor_trunc_div_neg [OF assms(1) neg] assms(1) by (simp add: mult_le_0_iff)
  have b: "\<lfloor>x / real_of_int d\<rfloor> * d \<le> 0"
    using floor_div_neg [OF assms(1) neg] assms(1) by (simp add: mult_le_0_iff)
  have a': "real_of_int (\<lfloor>real_of_int (py_int x) / real_of_int d\<rfloor> * d) \<le> real_of_int m"
    using a assms(2) by linarith
  have b': "real_of_int (\<lfloor>x / real_of_int d\<rfloor> * d) \<le> real_of_int m"
    using b assms(2) by linarith
  show ?thesis using a' b' by (simp add: max_def)
qed

lemma round_filters_unfold:
  assumes "d \<noteq> 0" "w \<noteq> 0"
  shows "round_filters f (Some w) (real_of_int d) m =
    Inr (py_int (let g = max (real_of_int (eff_min_depth d m))
                     (real_of_int \<lfloor>real_of_int (py_int (real_of_int f * w + real_of_int d / 2)) / real_of_int d\<rfloor> * real_of_int d)
         in if g < 0.9 * (real_of_int f * w) then g + real_of_int d else g))"
  using assms by (simp add: round_filters_def eff_min_depth_def Let_def split: option.splits)

lemma max_snap_int:
  assumes "0 < d" "0 < m"
  shows "max m (\<lfloor>real_of_int (py_int x) / real_of_int d\<rfloor> * d) = max m (\<lfloor>x / real_of_int d\<rfloor> * d)"
proof -
  have "real_of_int (max m (\<lfloor>real_of_int (py_int x) / real_of_int d\<rfloor> * d))
      = real_of_int (max m (\<lfloor>x / real_of_int d\<rfloor> * d))"
    using max_snap_eq [OF assms, of x] by (simp only: of_int_max of_int_mult)
  then show ?thesis by (simp only: of_int_eq_iff)
qed

lemma round_filters_int_form:
  assumes "d \<noteq> 0" "w \<noteq> 0"
  shows "round_filters f (Some w) (real_of_int d) m =
    Inr (let g = max (eff_min_depth d m)
                     (\<lfloor>real_of_int (py_int (real_of_int f * w + real_of_int d / 2)) / real_of_int d\<rfloor> * d)
         in if real_of_int g < 0.9 * (real_of_int f * w) then g + d else g)"
proof -
  let ?g = "max (eff_min_depth d m)
              (\<lfloor>real_of_int (py_int (real_of_int f * w + real_of_int d / 2)) / real_of_int d\<rfloor> * d)"
  have g: "max (real_of_int (eff_min_depth d m))
             (real_of_int \<lfloor>real_of_int (py_int (real_of_int f * w + real_of_int d / 2)) / real_of_int d\<rfloor>
                * real_of_int d) = real_of_int ?g"
    by (simp only: of_int_max of_int_mult)
  have p1: "py_int (real_of_int ?g + real_of_int d) = ?g + d"
    using py_int_of_int [of "?g + d"] by (simp only: of_int_add)
  show ?thesis
    unfolding round_filters_unfold [OF assms] g Let_def
    by (simp only: p1 py_int_of_int if_distrib [of py_int])
qed



lemma corrected_mono:
  assumes "0 < d" and "x1 \<le> x2" and "p1 \<le> p2"
  shows "(if real_of_int (p1 * d) < 0.9 * x1 then p1 * d + d else p1 * d)
       \<le> (if real_of_int (p2 * d) < 0.9 * x2 then p2 * d + d else p2 * d)"
proof (cases "p1 = p2")
  case True
  then show ?thesis using assms(1,2) by auto
next
  case False
  then have "p1 + 1 \<le> p2" using assms(3) by simp
  then have "(p1 + 1) * d \<le> p2 * d" using assms(1) by (simp only: mult_right_mono less_imp_le)
  then have "p1 * d + d \<le> p2 * d" by (simp add: algebra_simps)
  then show ?thesis using assms(1,3) by auto
qed

text \<open>
  Claim C6, amended. For non-negative filters, a positive integer divisor \<open>d\<close> and a
  \<open>min_depth\<close> that is absent or a positive multiple of \<open>d\<close>, \<open>round_filters\<close> is
  non-decreasing in the width coefficient over the nonzero width coefficients.
\<close>

theorem round_filters_mono_nonzero:
  assumes "0 \<le> f" and "0 < d"
    and "m = None \<or> (\<exists>k. 0 < k \<and> m = Some (k * d))"
    and "w1 \<noteq> 0" and "w2 \<noteq> 0" and "w1 \<le> w2"
  shows "\<exists>a b. round_filters f (Some w1) (real_of_int d) m = Inr a
               \<and> round_filters f (Some w2) (real_of_int d) m = Inr b \<and> a \<le> b"
proof -
  obtain k where k: "0 < k" "eff_min_depth d m = k * d"
  proof (cases m)
    case None
    then have "eff_min_depth d m = 1 * d" by (simp add: eff_min_depth_def)
    then show ?thesis using that [of 1] by simp
  next
    case (Some v)
    then obtain k' where "0 < k'" "v = k' * d" using assms(3) by auto
    then show ?thesis using that [of k'] Some assms(2) by (simp add: eff_min_depth_def)
  qed
  have mpos: "0 < k * d" using k(1) assms(2) by simp
  have dnz: "d \<noteq> 0" using assms(2) by simp
  let ?y = "\<lambda>w. real_of_int f * w + real_of_int d / 2"
  let ?q = "\<lambda>w. \<lfloor>?y w / real_of_int d\<rfloor>"
  let ?p = "\<lambda>w. max k (?q w)"
  have g: "max (eff_min_depth d m) (\<lfloor>real_of_int (py_int (?y w)) / real_of_int d\<rfloor> * d) = ?p w * d" for w
  proof -
    have "max (k * d) (\<lfloor>real_of_int (py_int (?y w)) / real_of_int d\<rfloor> * d) = max (k * d) (?q w * d)"
      using max_snap_int [OF assms(2) mpos] .
    also have "\<dots> = ?p w * d"
      using assms(2) by (simp add: max_def)
    finally show ?thesis by (simp only: k(2))
  qed
  have form: "round_filters f (Some w) (real_of_int d) m =
      Inr (if real_of_int (?p w * d) < 0.9 * (real_of_int f * w) then ?p w * d + d else ?p w * d)"
    if "w \<noteq> 0" for w
    using round_filters_int_form [OF dnz that, of f m] unfolding Let_def g .
  have x: "real_of_int f * w1 \<le> real_of_int f * w2"
    using assms(1,6) by (simp add: mult_left_mono)
  then have "?y w1 / real_of_int d \<le> ?y w2 / real_of_int d"
    using assms(2) by (simp add: divide_right_mono)
  then have "?q w1 \<le> ?q w2" by (rule floor_mono)
  then have p: "?p w1 \<le> ?p w2" by simp
  show ?thesis
    using corrected_mono [OF assms(2) x p] form [OF assms(4)] form [OF assms(5)] by simp
qed

theorem round_filters_mono_nonzero_witness:
  "(0::int) \<le> 32 \<and> (0::int) < 8 \<and> (0.5::real) \<noteq> 0 \<and> (1.1::real) \<noteq> 0 \<and> (0.5::real) \<le> 1.1
   \<and> round_filters 32 (Some 0.5) (real_of_int 8) None = Inr 16
   \<and> round_filters 32 (Some 1.1) (real_of_int 8) None = Inr 32 \<and> (16::int) \<le> 32"
  using round_filters_mono_nonzero [of 32 8 None "0.5" "1.1"]
  by (simp add: round_filters_def py_int_def)

text \<open>
  Claim C6 as stated fails: a width coefficient of zero returns the 32 filters unchanged
  while 0.5 gives 16; and with a \<open>min_depth\<close> of 3, which is not a multiple of the divisor
  8, the width coefficient 3.5 gives 11 filters while 4 gives 8.
\<close>

theorem round_filters_not_monotone:
  "round_filters 32 (Some 0) 8 None = Inr 32
   \<and> round_filters 32 (Some 0.5) 8 None = Inr 16
   \<and> round_filters 1 (Some 3.5) 8 (Some 3) = Inr 11
   \<and> round_filters 1 (Some 4) 8 (Some 3) = Inr 8"
  by (simp add: round_filters_def py_int_def)

section \<open>Double precision\<close>

lemma exponent_from_eq:
  assumes "e \<le> e0" and "e0 - int n \<le> e" and "2 powi e \<le> a" and "a < 2 powi (e + 1)"
  shows "exponent_from a e0 n = e"
  using assms
proof (induction n arbitrary: e0)
  case 0
  then show ?case by simp
next
  case (Suc n)
  show ?case
  proof (cases "e0 = e")
    case True
    then show ?thesis using Suc.prems by simp
  next
    case False
    then have lt: "e + 1 \<le> e0" using Suc.prems by simp
    have "(2::real) powi (e + 1) \<le> 2 powi e0"
      using lt by (intro power_int_increasing) simp_all
    then have "\<not> 2 powi e0 \<le> a" using Suc.prems(4) by simp
    moreover have "exponent_from a (e0 - 1) n = e"
      using Suc.prems lt by (intro Suc.IH) simp_all
    ultimately show ?thesis by simp
  qed
qed

lemma exponent_eq:
  assumes "- 1022 \<le> e" and "e \<le> 1023" and "2 powi e \<le> a" and "a < 2 powi (e + 1)"
  shows "exponent a = e"
  unfolding exponent_def using assms by (intro exponent_from_eq) simp_all

lemma round_double_eq:
  assumes "- 1022 \<le> e" and "e \<le> 1023" and "2 powi e \<le> \<bar>x\<bar>" and "\<bar>x\<bar> < 2 powi (e + 1)"
  shows "round_double x = real_of_int (round_half_even (x / 2 powi (e - 52))) * 2 powi (e - 52)"
  using exponent_eq [OF assms] by (simp add: round_double_def Let_def)

lemma round_half_even_of_int: "round_half_even (real_of_int k) = k"
  by (simp add: round_half_even_def)

lemma round_double_zero: "round_double 0 = 0"
  by (simp add: round_double_def round_half_even_def)

lemma int_exponent:
  assumes "r \<noteq> 0" and "\<bar>r\<bar> \<le> 2 ^ 53"
  shows "\<exists>e. 0 \<le> e \<and> e \<le> 53 \<and> 2 powi e \<le> \<bar>real_of_int r\<bar> \<and> \<bar>real_of_int r\<bar> < 2 powi (e + 1)"
proof -
  let ?a = "\<bar>real_of_int r\<bar>"
  have a1: "1 \<le> ?a" using assms(1) by (simp flip: of_int_abs)
  have a2: "?a \<le> 2 ^ 53" using assms(2) by (simp flip: of_int_abs)
  define e where "e = \<lfloor>log 2 ?a\<rfloor>"
  have "2 powr (real_of_int e) \<le> ?a \<and> ?a < 2 powr (real_of_int (e + 1))"
    using floor_log_eq_powr_iff [of ?a 2 e] a1 e_def by simp
  then have "2 powr (real_of_int e) \<le> ?a" "?a < 2 powr (real_of_int (e + 1))"
    by simp_all
  then have b: "2 powi e \<le> ?a" "?a < 2 powi (e + 1)"
    by (simp_all only: powr_real_of_int' [of 2, simplified])
  have "0 \<le> log 2 ?a" using a1 by simp
  then have e0: "0 \<le> e" unfolding e_def by simp
  have "log 2 ?a \<le> 53" using a1 a2 by (simp add: log_le_iff)
  then have e53: "e \<le> 53" unfolding e_def by linarith
  from b e0 e53 show ?thesis by blast
qed

lemma round_double_of_int:
  assumes "\<bar>r\<bar> \<le> 2 ^ 53"
  shows "round_double (real_of_int r) = real_of_int r"
proof (cases "r = 0")
  case True
  then show ?thesis by (simp add: round_double_zero)
next
  case False
  from int_exponent [OF False assms] obtain e where e: "0 \<le> e" "e \<le> 53"
    "2 powi e \<le> \<bar>real_of_int r\<bar>" "\<bar>real_of_int r\<bar> < 2 powi (e + 1)"
    by blast
  have rd: "round_double (real_of_int r)
      = real_of_int (round_half_even (real_of_int r / 2 powi (e - 52))) * 2 powi (e - 52)"
    using e by (intro round_double_eq) simp_all
  have "\<exists>k. real_of_int r / 2 powi (e - 52) = real_of_int k"
  proof (cases "e \<le> 52")
    case True
    have "real_of_int r / 2 powi (e - 52) = real_of_int r * 2 powi (52 - e)"
      by (simp add: power_int_diff field_simps)
    also have "2 powi (52 - e) = (2::real) ^ nat (52 - e)"
      using True by (simp add: power_int_def)
    finally have "real_of_int r / 2 powi (e - 52) = real_of_int (r * 2 ^ nat (52 - e))"
      by simp
    then show ?thesis by blast
  next
    case False
    then have e53: "e = 53" using e(2) by simp
    have "2 ^ 53 \<le> \<bar>real_of_int r\<bar>" using e(3) e53 by simp
    then have "\<bar>r\<bar> = 2 ^ 53" using assms by (simp flip: of_int_abs)
    then have "r = 2 ^ 53 \<or> r = - (2 ^ 53)" by linarith
    then have "real_of_int r / 2 powi (e - 52) = real_of_int (r div 2)"
      using e53 by auto
    then show ?thesis by blast
  qed
  then obtain k where k: "real_of_int r / 2 powi (e - 52) = real_of_int k" ..
  have "round_double (real_of_int r) = real_of_int k * 2 powi (e - 52)"
    unfolding rd k round_half_even_of_int ..
  also have "\<dots> = real_of_int r / 2 powi (e - 52) * 2 powi (e - 52)"
    by (simp only: k)
  also have "\<dots> = real_of_int r" by simp
  finally show ?thesis .
qed

lemma round_double_eval:
  assumes "- 1022 \<le> e" and "e \<le> 1023" and "2 powi e \<le> \<bar>x\<bar>" and "\<bar>x\<bar> < 2 powi (e + 1)"
    and "round_half_even (x / 2 powi (e - 52)) = k"
  shows "round_double x = real_of_int k * 2 powi (e - 52)"
  using round_double_eq [OF assms(1-4)] assms(5) by simp

lemma round_double_numeral:
  "numeral n \<le> (2::int) ^ 53 \<Longrightarrow> round_double (numeral n) = numeral n"
  using round_double_of_int [of "numeral n"] by simp

lemma round_double_one: "round_double 1 = 1"
  using round_double_of_int [of 1] by simp

lemma rd_7_5:
  assumes x: "x = 7 / 5"
  shows "round_double x = 6305039478318694 / 2 ^ 52"
  unfolding x
  using round_double_eval [of 0 "7 / 5" 6305039478318694]
  by (simp add: round_half_even_def)

lemma rd_9_10:
  assumes x: "x = 9 / 10"
  shows "round_double x = 8106479329266893 / 2 ^ 53"
  unfolding x
  using round_double_eval [of "- 1" "9 / 10" 8106479329266893]
  by (simp add: round_half_even_def)

lemma rd_1_3:
  assumes x: "x = 1 / 3"
  shows "round_double x = 6004799503160661 / 2 ^ 54"
  unfolding x
  using round_double_eval [of "- 2" "1 / 3" 6004799503160661]
  by (simp add: round_half_even_def)

lemma rd_scaled_180:
  assumes x: "x = 180 * (6305039478318694 / 2 ^ 52)"
  shows "round_double x = 8866461766385663 / 2 ^ 45"
  unfolding x
  using round_double_eval [of 7 "180 * (6305039478318694 / 2 ^ 52)" 8866461766385663]
  by (simp add: round_half_even_def)

lemma rd_sum_180:
  assumes x: "x = 8866461766385663 / 2 ^ 45 + 4"
  shows "round_double x = 9007199254740991 / 2 ^ 45"
  unfolding x
  using round_double_eval [of 7 "8866461766385663 / 2 ^ 45 + 4" 9007199254740991]
  by (simp add: round_half_even_def)

lemma rd_scaled_33:
  assumes x: "x = 33 * (6004799503160661 / 2 ^ 54)"
  shows "round_double x = 11"
  unfolding x
  using round_double_eval [of 3 "33 * (6004799503160661 / 2 ^ 54)" 6192449487634432]
  by (simp add: round_half_even_def)

lemma rd_threshold_180:
  assumes x: "x = 8106479329266893 / 2 ^ 53 * (8866461766385663 / 2 ^ 45)"
  shows "round_double x = 7979815589747097 / 2 ^ 45"
  unfolding x
  using round_double_eval [of 7 "8106479329266893 / 2 ^ 53 * (8866461766385663 / 2 ^ 45)" 7979815589747097]
  by (simp add: round_half_even_def)

lemma rd_threshold_33:
  assumes x: "x = 8106479329266893 / 2 ^ 53 * 11"
  shows "round_double x = 5573204538870989 / 2 ^ 49"
  unfolding x
  using round_double_eval [of 3 "8106479329266893 / 2 ^ 53 * 11" 5573204538870989]
  by (simp add: round_half_even_def)

lemma round_half_even_bounds:
  "\<lfloor>x\<rfloor> \<le> round_half_even x" "round_half_even x \<le> \<lfloor>x\<rfloor> + 1"
  by (simp_all add: round_half_even_def Let_def)

lemma round_half_even_mono:
  assumes "u \<le> v"
  shows "round_half_even u \<le> round_half_even v"
proof (cases "\<lfloor>u\<rfloor> = \<lfloor>v\<rfloor>")
  case True
  then have "u - real_of_int \<lfloor>u\<rfloor> \<le> v - real_of_int \<lfloor>v\<rfloor>" using assms by simp
  then show ?thesis using True by (auto simp: round_half_even_def Let_def)
next
  case False
  then have "\<lfloor>u\<rfloor> + 1 \<le> \<lfloor>v\<rfloor>" using floor_mono [OF assms] by linarith
  then show ?thesis
    using round_half_even_bounds(2) [of u] round_half_even_bounds(1) [of v] by linarith
qed

lemma round_half_even_le: "u \<le> real_of_int n \<Longrightarrow> round_half_even u \<le> n"
  using round_half_even_mono [of u "real_of_int n"] by (simp add: round_half_even_of_int)

lemma round_half_even_ge: "real_of_int n \<le> u \<Longrightarrow> n \<le> round_half_even u"
  using round_half_even_mono [of "real_of_int n" u] by (simp add: round_half_even_of_int)

lemma round_half_even_minus: "round_half_even (- u) = - round_half_even u"
proof (cases "u = real_of_int \<lfloor>u\<rfloor>")
  case True
  then obtain k where "u = real_of_int k" ..
  then have "round_half_even u = k" "round_half_even (- u) = - k"
    using round_half_even_of_int [of k] round_half_even_of_int [of "- k"] by simp_all
  then show ?thesis by simp
next
  case False
  then have "\<lceil>u\<rceil> = \<lfloor>u\<rfloor> + 1" by (simp add: ceiling_altdef)
  then have fl: "\<lfloor>- u\<rfloor> = - \<lfloor>u\<rfloor> - 1"
    by (simp add: ceiling_def)
  show ?thesis
    unfolding round_half_even_def Let_def fl
    by (auto simp: algebra_simps)
qed

lemma exponent_from_props:
  "e0 - int n \<le> exponent_from a e0 n \<and> exponent_from a e0 n \<le> e0
   \<and> (e0 - int n < exponent_from a e0 n \<longrightarrow> 2 powi (exponent_from a e0 n) \<le> a)
   \<and> (\<forall>e. exponent_from a e0 n < e \<and> e \<le> e0 \<longrightarrow> a < 2 powi e)"
proof (induction n arbitrary: e0)
  case 0
  show ?case by simp
next
  case (Suc n)
  show ?case
  proof (cases "2 powi e0 \<le> a")
    case True
    then show ?thesis by simp
  next
    case False
    have eq: "exponent_from a e0 (Suc n) = exponent_from a (e0 - 1) n" using False by simp
    let ?r = "exponent_from a (e0 - 1) n"
    from Suc.IH [of "e0 - 1"] have ih: "e0 - 1 - int n \<le> ?r" "?r \<le> e0 - 1"
      "e0 - 1 - int n < ?r \<longrightarrow> 2 powi ?r \<le> a"
      "\<forall>e. ?r < e \<and> e \<le> e0 - 1 \<longrightarrow> a < 2 powi e"
      by blast+
    have "a < 2 powi e" if "?r < e" "e \<le> e0" for e
    proof (cases "e = e0")
      case True
      then show ?thesis using False by simp
    next
      case False
      then have "e \<le> e0 - 1" using that by simp
      then show ?thesis using ih(4) that by blast
    qed
    then show ?thesis
      unfolding eq using ih(1,2,3) by auto
  qed
qed

lemma exponent_props:
  "- 1022 \<le> exponent a" "exponent a \<le> 1023"
  "- 1022 < exponent a \<Longrightarrow> 2 powi (exponent a) \<le> a"
  "exponent a < e \<Longrightarrow> e \<le> 1023 \<Longrightarrow> a < 2 powi e"
  using exponent_from_props [of 1023 2045 a] unfolding exponent_def by simp_all

lemma exponent_mono:
  assumes "a \<le> b"
  shows "exponent a \<le> exponent b"
proof (rule ccontr)
  assume "\<not> exponent a \<le> exponent b"
  then have lt: "exponent b < exponent a" by simp
  then have "- 1022 < exponent a" using exponent_props(1) [of b] by linarith
  then have "2 powi (exponent a) \<le> a" by (rule exponent_props(3))
  moreover have "b < 2 powi (exponent a)"
    using lt exponent_props(2) [of a] by (rule exponent_props(4))
  ultimately show False using assms by linarith
qed

lemma round_double_nonneg:
  assumes "0 \<le> x"
  shows "0 \<le> round_double x"
proof -
  let ?s = "(2::real) powi (exponent \<bar>x\<bar> - 52)"
  have s: "0 < ?s" by simp
  then have "0 \<le> x / ?s" using assms by simp
  then have "0 \<le> round_half_even (x / ?s)"
    using round_half_even_ge [of 0 "x / ?s"] by simp
  then show ?thesis unfolding round_double_def Let_def using s by simp
qed

lemma round_double_minus: "round_double (- x) = - round_double x"
  by (simp add: round_double_def Let_def round_half_even_minus)

lemma scale_53: "(2::real) powi (e + 1) = 2 ^ 53 * 2 powi (e - 52)"
proof -
  have "e + 1 = (e - 52) + int 53" by simp
  then have "(2::real) powi (e + 1) = 2 powi ((e - 52) + int 53)" by (simp only:)
  also have "\<dots> = 2 powi (e - 52) * 2 powi (int 53)" by (rule power_int_add) simp
  also have "(2::real) powi (int 53) = 2 ^ 53" by (rule power_int_of_nat)
  finally show ?thesis by (simp only: mult.commute)
qed

lemma scale_52: "(2::real) powi e = 2 ^ 52 * 2 powi (e - 52)"
proof -
  have "e = (e - 52) + int 52" by simp
  then have "(2::real) powi e = 2 powi ((e - 52) + int 52)" by (simp only:)
  also have "\<dots> = 2 powi (e - 52) * 2 powi (int 52)" by (rule power_int_add) simp
  also have "(2::real) powi (int 52) = 2 ^ 52" by (rule power_int_of_nat)
  finally show ?thesis by (simp only: mult.commute)
qed

lemma round_double_upper:
  assumes "0 \<le> x" and "exponent x < 1023"
  shows "round_double x \<le> 2 powi (exponent x + 1)"
proof -
  let ?e = "exponent x"
  let ?s = "(2::real) powi (?e - 52)"
  have s: "0 < ?s" by simp
  have "x < 2 powi (?e + 1)" using assms(2) by (intro exponent_props(4)) simp_all
  then have "x / ?s \<le> 2 powi (?e + 1) / ?s" using s by (simp add: divide_right_mono)
  also have "2 powi (?e + 1) / ?s = (2::real) ^ 53"
    unfolding scale_53 [of ?e] using s by simp
  finally have "x / ?s \<le> real_of_int (2 ^ 53)" by simp
  then have "round_half_even (x / ?s) \<le> 2 ^ 53" by (rule round_half_even_le)
  then have "real_of_int (round_half_even (x / ?s)) \<le> 2 ^ 53"
    by (metis of_int_le_iff of_int_numeral of_int_power)
  then have "real_of_int (round_half_even (x / ?s)) * ?s \<le> 2 ^ 53 * ?s"
    using s by (simp add: mult_right_mono)
  also have "2 ^ 53 * ?s = (2::real) powi (?e + 1)"
    by (rule scale_53 [symmetric])
  finally show ?thesis using assms(1) by (simp add: round_double_def Let_def)
qed

lemma round_double_lower:
  assumes "0 \<le> x" and "- 1022 < exponent x"
  shows "2 powi (exponent x) \<le> round_double x"
proof -
  let ?e = "exponent x"
  let ?s = "(2::real) powi (?e - 52)"
  have s: "0 < ?s" by simp
  have "2 powi ?e \<le> x" using assms(2) by (rule exponent_props(3))
  then have "2 powi ?e / ?s \<le> x / ?s" using s by (simp add: divide_right_mono)
  moreover have "2 powi ?e / ?s = (2::real) ^ 52"
    unfolding scale_52 [of ?e] using s by simp
  ultimately have "real_of_int (2 ^ 52) \<le> x / ?s" by simp
  then have "2 ^ 52 \<le> round_half_even (x / ?s)" by (rule round_half_even_ge)
  then have "2 ^ 52 \<le> real_of_int (round_half_even (x / ?s))"
    by (metis of_int_le_iff of_int_numeral of_int_power)
  then have le: "2 ^ 52 * ?s \<le> real_of_int (round_half_even (x / ?s)) * ?s"
    using s by (simp add: mult_right_mono)
  have "2 powi ?e = 2 ^ 52 * ?s" by (rule scale_52)
  also note le
  finally have "2 powi ?e \<le> real_of_int (round_half_even (x / ?s)) * ?s" .
  then show ?thesis using assms(1) by (simp add: round_double_def Let_def)
qed

lemma round_double_mono_nonneg:
  assumes "0 \<le> x" and "x \<le> y"
  shows "round_double x \<le> round_double y"
proof (cases "exponent x = exponent y")
  case True
  let ?s = "(2::real) powi (exponent x - 52)"
  have s: "0 < ?s" by simp
  have "x / ?s \<le> y / ?s" using assms(2) s by (simp add: divide_right_mono)
  then have "round_half_even (x / ?s) \<le> round_half_even (y / ?s)"
    by (rule round_half_even_mono)
  then have "real_of_int (round_half_even (x / ?s)) * ?s \<le> real_of_int (round_half_even (y / ?s)) * ?s"
    using s by (simp add: mult_right_mono)
  then show ?thesis using assms True by (simp add: round_double_def Let_def)
next
  case False
  then have lt: "exponent x < exponent y" using exponent_mono [OF assms(2)] by simp
  have y0: "0 \<le> y" using assms by simp
  have "round_double x \<le> 2 powi (exponent x + 1)"
    using assms(1) lt exponent_props(2) [of y] by (intro round_double_upper) simp_all
  also have "(2::real) powi (exponent x + 1) \<le> 2 powi (exponent y)"
    using lt by (intro power_int_increasing) simp_all
  also have "\<dots> \<le> round_double y"
    using y0 lt exponent_props(1) [of x] by (intro round_double_lower) simp_all
  finally show ?thesis .
qed

lemma round_double_mono:
  assumes "x \<le> y"
  shows "round_double x \<le> round_double y"
proof (cases "0 \<le> x")
  case True
  then show ?thesis using assms by (rule round_double_mono_nonneg)
next
  case False
  show ?thesis
  proof (cases "0 \<le> y")
    case True
    have "round_double (- x) \<ge> 0" using False by (intro round_double_nonneg) simp
    then have "round_double x \<le> 0" by (simp add: round_double_minus)
    also have "0 \<le> round_double y" using True by (rule round_double_nonneg)
    finally show ?thesis .
  next
    case False
    then have "round_double (- y) \<le> round_double (- x)"
      using assms by (intro round_double_mono_nonneg) simp_all
    then show ?thesis by (simp add: round_double_minus)
  qed
qed

lemma round_double_le_int:
  assumes "\<bar>n\<bar> \<le> 2 ^ 53" and "x \<le> real_of_int n"
  shows "round_double x \<le> real_of_int n"
  using round_double_mono [OF assms(2)] round_double_of_int [OF assms(1)] by simp

lemma round_double_ge_int:
  assumes "\<bar>n\<bar> \<le> 2 ^ 53" and "real_of_int n \<le> x"
  shows "real_of_int n \<le> round_double x"
  using round_double_mono [OF assms(2)] round_double_of_int [OF assms(1)] by simp

lemma ceiling_round_double:
  assumes "\<bar>p\<bar> \<le> 2 ^ 53"
  shows "\<lceil>p\<rceil> - 1 \<le> \<lceil>round_double p\<rceil>" and "\<lceil>round_double p\<rceil> \<le> \<lceil>p\<rceil>"
    and "\<bar>round_double p\<bar> \<le> 2 ^ 53"
proof -
  have up: "p \<le> 2 ^ 53" and lo: "- (2 ^ 53) \<le> p" using assms by linarith+
  have c1: "\<lceil>p\<rceil> \<le> 2 ^ 53" using up by (simp add: ceiling_le_iff)
  have c2: "- (2 ^ 53) \<le> \<lceil>p\<rceil>"
  proof -
    have "real_of_int (- (2 ^ 53)) \<le> p" using lo by simp
    then have "real_of_int (- (2 ^ 53)) \<le> real_of_int \<lceil>p\<rceil>"
      using le_of_int_ceiling [of p] by linarith
    then show ?thesis by (simp only: of_int_le_iff)
  qed
  have f1: "\<lfloor>p\<rfloor> \<le> 2 ^ 53"
  proof -
    have "real_of_int \<lfloor>p\<rfloor> \<le> real_of_int (2 ^ 53)" using up of_int_floor_le [of p] by simp
    then show ?thesis by (simp only: of_int_le_iff)
  qed
  have f2: "- (2 ^ 53) \<le> \<lfloor>p\<rfloor>" using lo by (simp add: le_floor_iff)
  have ca: "\<bar>\<lceil>p\<rceil>\<bar> \<le> 2 ^ 53" using c1 c2 by linarith
  have fa: "\<bar>\<lfloor>p\<rfloor>\<bar> \<le> 2 ^ 53" using f1 f2 by linarith
  have a: "round_double p \<le> real_of_int \<lceil>p\<rceil>"
    using round_double_le_int [OF ca le_of_int_ceiling] .
  have b: "real_of_int \<lfloor>p\<rfloor> \<le> round_double p"
    using round_double_ge_int [OF fa of_int_floor_le] .
  show "\<lceil>round_double p\<rceil> \<le> \<lceil>p\<rceil>" using a by (simp add: ceiling_le_iff)
  have "\<lfloor>p\<rfloor> \<le> \<lceil>round_double p\<rceil>"
    using b le_of_int_ceiling [of "round_double p"] by linarith
  moreover have "\<lceil>p\<rceil> \<le> \<lfloor>p\<rfloor> + 1" by (simp add: ceiling_altdef)
  ultimately show "\<lceil>p\<rceil> - 1 \<le> \<lceil>round_double p\<rceil>" by linarith
  have "real_of_int \<lceil>p\<rceil> \<le> real_of_int (2 ^ 53)" using c1 by (simp only: of_int_le_iff)
  also have "real_of_int (2 ^ 53) = (2::real) ^ 53" by simp
  finally have "real_of_int \<lceil>p\<rceil> \<le> 2 ^ 53" .
  with a have "round_double p \<le> 2 ^ 53" by linarith
  moreover have "- (2 ^ 53) \<le> round_double p"
  proof -
    have "real_of_int (- (2 ^ 53)) \<le> real_of_int \<lfloor>p\<rfloor>" using f2 by (simp only: of_int_le_iff)
    moreover have "real_of_int (- (2 ^ 53)) = - ((2::real) ^ 53)" by simp
    ultimately have "- ((2::real) ^ 53) \<le> real_of_int \<lfloor>p\<rfloor>" by (simp only:)
    with b show ?thesis by linarith
  qed
  ultimately show "\<bar>round_double p\<bar> \<le> 2 ^ 53" by linarith
qed

lemma not_overflows_le: "\<bar>x\<bar> \<le> 2 ^ 53 \<Longrightarrow> \<not> overflows x"
proof -
  assume "\<bar>x\<bar> \<le> 2 ^ 53"
  moreover have "(2::real) ^ 53 < 2 ^ 1024" by (intro power_strict_increasing) simp_all
  ultimately show ?thesis unfolding overflows_def by linarith
qed

lemma py_int_div:
  assumes "0 < d" and "0 < m"
  shows "max m (py_int y div d * d) = max m (\<lfloor>y / real_of_int d\<rfloor> * d)"
  using max_snap_int [OF assms, of y] by (simp add: floor_divide_of_int_eq)

text \<open>
  Claim C2, amended. For a positive integer divisor \<open>d\<close>, a nonzero width coefficient
  and a \<open>min_depth\<close> that is absent or positive, \<open>round_filters\<close> raises OverflowError
  when one of its float operations overflows, and otherwise returns the value of the
  specification's algorithm taken on the rounded values: the product and the sum with
  half the divisor rounded to double precision, the floor of the exact quotient by the
  divisor, and the comparison with the rounded 90 percent of the rounded product; for a
  width coefficient that is zero or absent it returns the filters unchanged.
\<close>

theorem round_filters_double_rounded:
  assumes "0 < d" and "w \<noteq> 0" and "m = None \<or> (\<exists>v. m = Some v \<and> 0 < v)"
  shows "round_filters_double f (Some w) d m
           = (if float_overflow f w d then Inl OverflowError
              else Inr (round_filters_rounded f w d (case m of None \<Rightarrow> d | Some v \<Rightarrow> v)))
         \<and> round_filters_double f (Some 0) d m = Inr f
         \<and> round_filters_double f None d m = Inr f"
proof -
  let ?m = "case m of None \<Rightarrow> d | Some v \<Rightarrow> v"
  let ?s = "round_double (round_double (real_of_int f) * w)"
  let ?y = "round_double (?s + round_double (real_of_int d / 2))"
  let ?t = "round_double (round_double 0.9 * ?s)"
  let ?g = "max ?m (\<lfloor>?y / real_of_int d\<rfloor> * d)"
  have mpos: "0 < ?m" using assms by (auto split: option.splits)
  have eff: "(case m of None \<Rightarrow> d | Some v \<Rightarrow> if v = 0 then d else v) = ?m"
    using assms(3) by auto
  have g: "max ?m (py_int ?y div d * d) = ?g"
    using py_int_div [OF assms(1) mpos] .
  have gr: "max (real_of_int ?m) (real_of_int \<lfloor>?y / real_of_int d\<rfloor> * real_of_int d) = real_of_int ?g"
    by (simp only: of_int_max of_int_mult)
  have spec: "round_filters_rounded f w d ?m = (if real_of_int ?g < ?t then ?g + d else ?g)"
  proof -
    have "round_filters_rounded f w d ?m
        = py_int (if real_of_int ?g < ?t then real_of_int ?g + real_of_int d else real_of_int ?g)"
      unfolding round_filters_rounded_def Let_def gr ..
    also have "\<dots> = (if real_of_int ?g < ?t then py_int (real_of_int (?g + d)) else py_int (real_of_int ?g))"
      by simp
    finally show ?thesis by (simp only: py_int_of_int)
  qed
  have code: "round_filters_double f (Some w) d m
      = (if float_overflow f w d then Inl OverflowError
         else Inr (if real_of_int ?g < ?t then ?g + d else ?g))"
    using assms(1,2)
    by (simp add: round_filters_double_def float_overflow_def Let_def eff g)
  have "round_filters_double f (Some 0) d m = Inr f" "round_filters_double f None d m = Inr f"
    by (simp_all add: round_filters_double_def)
  with code spec show ?thesis by simp
qed

lemma not_overflows: "\<bar>x\<bar> < 2 ^ 53 \<Longrightarrow> \<not> overflows x"
proof -
  assume "\<bar>x\<bar> < 2 ^ 53"
  moreover have "(2::real) ^ 53 \<le> 2 ^ 1024" by (intro power_increasing) simp_all
  ultimately show ?thesis unfolding overflows_def by linarith
qed

lemma round_filters_double_180:
  "round_filters_double 180 (Some (round_double (7 / 5))) 8 None = Inr 248"
  by (simp add: round_filters_double_def Let_def rd_7_5 round_double_numeral rd_scaled_180
      rd_sum_180 rd_9_10 rd_threshold_180 not_overflows py_int_def)

lemma round_filters_double_33:
  "round_filters_double 33 (Some (round_double (1 / 3))) 2 None = Inr 12"
  by (simp add: round_filters_double_def Let_def rd_1_3 round_double_numeral round_double_one
      rd_scaled_33 rd_9_10 rd_threshold_33 not_overflows py_int_def)

theorem round_filters_double_rounded_witness:
  "(0::int) < 8 \<and> round_double (7 / 5) \<noteq> 0
   \<and> \<not> float_overflow 180 (round_double (7 / 5)) 8
   \<and> round_filters_rounded 180 (round_double (7 / 5)) 8 8 = 248
   \<and> round_filters_double 180 (Some 0) 8 None = Inr 180
   \<and> round_filters_double 180 None 8 None = Inr 180"
proof -
  have w: "round_double (7 / 5) \<noteq> 0" by (simp add: rd_7_5)
  have o: "\<not> float_overflow 180 (round_double (7 / 5)) 8"
    by (simp add: float_overflow_def Let_def rd_7_5 round_double_numeral rd_scaled_180
        rd_sum_180 not_overflows)
  from round_filters_double_rounded [of 8 "round_double (7 / 5)" None 180] w o
    round_filters_double_180
  show ?thesis by simp
qed

text \<open>
  Claim C2 as stated fails: on the double nearest to 1/3, with 33 filters and divisor 2,
  the program returns 12 where the algorithm in exact arithmetic gives 10; and for 180
  filters at the width coefficient 1.4 and divisor 8 the program returns 248 where the
  algorithm in exact arithmetic on 7/5 gives 256.
\<close>

theorem round_filters_exact_formula_fails:
  "round_filters_double 33 (Some (round_double (1 / 3))) 2 None = Inr 12
   \<and> round_filters_spec 33 (round_double (1 / 3)) 2 2 = 10
   \<and> round_filters_double 180 (Some (round_double (7 / 5))) 8 None = Inr 248
   \<and> round_filters_spec 180 (7 / 5) 8 8 = 256"
proof -
  have "round_filters_spec 33 (round_double (1 / 3)) 2 2 = 10"
    by (simp add: round_filters_spec_def rd_1_3 py_int_def)
  moreover have "round_filters_spec 180 (7 / 5) 8 8 = 256"
    by (simp add: round_filters_spec_def py_int_def)
  ultimately show ?thesis
    using round_filters_double_33 round_filters_double_180 by simp
qed

lemma rd_9_2:
  assumes x: "x = 9 / 2"
  shows "round_double x = 9 / 2"
  unfolding x
  using round_double_eval [of 2 "9 / 2" 5066549580791808]
  by (simp add: round_half_even_def)

lemma rd_2_53_1:
  assumes x: "x = 2 ^ 53 + 1"
  shows "round_double x = 2 ^ 53"
  unfolding x
  using round_double_eval [of 53 "2 ^ 53 + 1" 4503599627370496]
  by (simp add: round_half_even_def)

lemma rd_11_10:
  assumes x: "x = 11 / 10"
  shows "round_double x = 4953959590107546 / 2 ^ 52"
  unfolding x
  using round_double_eval [of 0 "11 / 10" 4953959590107546]
  by (simp add: round_half_even_def)

lemma rd_product_50:
  assumes x: "x = 4953959590107546 / 2 ^ 52 * 50"
  shows "round_double x = 7740561859543041 / 2 ^ 47"
  unfolding x
  using round_double_eval [of 5 "4953959590107546 / 2 ^ 52 * 50" 7740561859543041]
  by (simp add: round_half_even_def)

lemma rd_1_10:
  assumes x: "x = 1 / 10"
  shows "round_double x = 7205759403792794 / 2 ^ 56"
  unfolding x
  using round_double_eval [of "- 4" "1 / 10" 7205759403792794]
  by (simp add: round_half_even_def)

lemma rd_product_10:
  assumes x: "x = 7205759403792794 / 2 ^ 56 * 10"
  shows "round_double x = 1"
  unfolding x
  using round_double_eval [of 0 "7205759403792794 / 2 ^ 56 * 10" 4503599627370496]
  by (simp add: round_half_even_def)

text \<open>
  Claim C8, amended. For a nonzero depth coefficient \<open>round_repeats\<close> returns the ceiling
  of the product rounded to double precision, or raises OverflowError when the
  conversion of the repeats or the product overflows; for a depth coefficient that is
  zero or absent it returns the repeats unchanged. A coefficient of 1.0 returns the
  repeats when they are at most \<open>2 ^ 53\<close> in magnitude. When the repeats and the exact
  product are at most \<open>2 ^ 53\<close> in magnitude, the result is the ceiling of the exact
  product or one less. 3 repeats at 1.5 give 5.
\<close>

theorem round_repeats_double_ceil:
  "round_repeats_double r (Some c) =
     (if c = 0 then Inr r
      else if overflows (round_double (real_of_int r))
              \<or> overflows (round_double (c * round_double (real_of_int r)))
           then Inl OverflowError
      else Inr \<lceil>round_double (c * round_double (real_of_int r))\<rceil>)
   \<and> round_repeats_double r None = Inr r
   \<and> round_repeats_double r (Some 0) = Inr r
   \<and> (\<bar>r\<bar> \<le> 2 ^ 53 \<longrightarrow> round_repeats_double r (Some 1) = Inr r)
   \<and> (c \<noteq> 0 \<and> \<bar>r\<bar> \<le> 2 ^ 53 \<and> \<bar>c * real_of_int r\<bar> \<le> 2 ^ 53 \<longrightarrow>
        (\<exists>n. round_repeats_double r (Some c) = Inr n
             \<and> \<lceil>c * real_of_int r\<rceil> - 1 \<le> n \<and> n \<le> \<lceil>c * real_of_int r\<rceil>))
   \<and> round_repeats_double 3 (Some 1.5) = Inr 5"
proof -
  have a: "round_repeats_double r (Some c) =
     (if c = 0 then Inr r
      else if overflows (round_double (real_of_int r))
              \<or> overflows (round_double (c * round_double (real_of_int r)))
           then Inl OverflowError
      else Inr \<lceil>round_double (c * round_double (real_of_int r))\<rceil>)"
    by (simp add: round_repeats_double_def Let_def)
  have b: "round_repeats_double r None = Inr r" "round_repeats_double r (Some 0) = Inr r"
    by (simp_all add: round_repeats_double_def)
  have small: "round_double (real_of_int r) = real_of_int r" "\<not> overflows (real_of_int r)"
    if "\<bar>r\<bar> \<le> 2 ^ 53"
  proof -
    show "round_double (real_of_int r) = real_of_int r" using that by (rule round_double_of_int)
    have "\<bar>real_of_int r\<bar> \<le> 2 ^ 53" using that by (simp flip: of_int_abs)
    then show "\<not> overflows (real_of_int r)" by (rule not_overflows_le)
  qed
  have c: "round_repeats_double r (Some 1) = Inr r" if "\<bar>r\<bar> \<le> 2 ^ 53"
    using small [OF that] by (simp add: round_repeats_double_def Let_def)
  have d: "\<exists>n. round_repeats_double r (Some c) = Inr n
             \<and> \<lceil>c * real_of_int r\<rceil> - 1 \<le> n \<and> n \<le> \<lceil>c * real_of_int r\<rceil>"
    if "c \<noteq> 0" "\<bar>r\<bar> \<le> 2 ^ 53" "\<bar>c * real_of_int r\<bar> \<le> 2 ^ 53"
  proof -
    let ?p = "c * real_of_int r"
    have "\<not> overflows (round_double ?p)"
      using ceiling_round_double(3) [OF that(3)] by (rule not_overflows_le)
    then have "round_repeats_double r (Some c) = Inr \<lceil>round_double ?p\<rceil>"
      using that(1) small [OF that(2)] by (simp add: round_repeats_double_def Let_def)
    then show ?thesis using ceiling_round_double(1,2) [OF that(3)] by blast
  qed
  have e: "round_repeats_double 3 (Some 1.5) = Inr 5"
    by (simp add: round_repeats_double_def Let_def round_double_numeral rd_9_2 not_overflows)
  from a b c d e show ?thesis by blast
qed

theorem round_repeats_double_ceil_witness:
  "\<bar>7::int\<bar> \<le> 2 ^ 53 \<and> round_repeats_double 7 (Some 1) = Inr 7
   \<and> (11 / 10 :: real) \<noteq> 0 \<and> \<bar>11 / 10 * real_of_int 7\<bar> \<le> 2 ^ 53
   \<and> (\<exists>n. round_repeats_double 7 (Some (11 / 10)) = Inr n
          \<and> \<lceil>11 / 10 * real_of_int 7\<rceil> - 1 \<le> n \<and> n \<le> \<lceil>11 / 10 * real_of_int 7\<rceil>)"
proof -
  have h1: "\<bar>7::int\<bar> \<le> 2 ^ 53" by simp
  have h2: "(11 / 10 :: real) \<noteq> 0" by simp
  have h3: "\<bar>11 / 10 * real_of_int 7\<bar> \<le> 2 ^ 53" by simp
  from round_repeats_double_ceil [of 7 "11 / 10"] h1 h2 h3 show ?thesis by blast
qed

text \<open>
  Claim C8 as stated fails: \<open>2 ^ 53 + 1\<close> repeats at the coefficient 1.0 give \<open>2 ^ 53\<close>;
  50 repeats at 1.1 give 56 where the ceiling of 55 is 55; and 10 repeats at 0.1 give 1
  where the ceiling of the exact product with the double nearest to 0.1 is 2.
\<close>

theorem round_repeats_not_exact_ceil:
  "round_repeats_double (2 ^ 53 + 1) (Some 1) = Inr (2 ^ 53)
   \<and> round_repeats_double 50 (Some (round_double (11 / 10))) = Inr 56
   \<and> \<lceil>11 / 10 * real_of_int 50\<rceil> = 55
   \<and> round_repeats_double 10 (Some (round_double (1 / 10))) = Inr 1
   \<and> \<lceil>round_double (1 / 10) * real_of_int 10\<rceil> = 2"
proof -
  have a: "round_repeats_double (2 ^ 53 + 1) (Some 1) = Inr (2 ^ 53)"
    by (simp add: round_repeats_double_def Let_def rd_2_53_1 round_double_numeral not_overflows_le)
  have b: "round_repeats_double 50 (Some (round_double (11 / 10))) = Inr 56"
    by (simp add: round_repeats_double_def Let_def rd_11_10 rd_product_50 round_double_numeral
        not_overflows)
  have c: "round_repeats_double 10 (Some (round_double (1 / 10))) = Inr 1"
    by (simp add: round_repeats_double_def Let_def rd_1_10 rd_product_10 round_double_numeral
        not_overflows)
  have d: "\<lceil>round_double (1 / 10) * real_of_int 10\<rceil> = 2"
    by (simp add: rd_1_10)
  from a b c d show ?thesis by simp
qed

subsection \<open>Monotonicity and the 90 % bound under rounding\<close>

text \<open>
  The rounding is monotone and fixes every double, so the two order properties of
  \<open>round_filters\<close> carry over to \<open>round_filters_double\<close>: the result does not decrease
  when the width coefficient grows (for a minimum depth that is a positive multiple of the
  divisor), and it is never below the threshold \<open>0.9 * filters\<close> that the function
  itself computes.
\<close>

lemma py_int_mono:
  assumes "x \<le> y"
  shows "py_int x \<le> py_int y"
proof (cases "0 \<le> x")
  case True
  then show ?thesis using assms by (simp add: py_int_def floor_mono)
next
  case False
  show ?thesis
  proof (cases "0 \<le> y")
    case True
    have "\<lceil>x\<rceil> \<le> 0" using False by (simp add: ceiling_le_iff)
    moreover have "0 \<le> \<lfloor>y\<rfloor>" using True by simp
    moreover have "py_int x = \<lceil>x\<rceil>" "py_int y = \<lfloor>y\<rfloor>"
      using False True by (simp_all add: py_int_def)
    ultimately show ?thesis by linarith
  next
    case False
    then show ?thesis using assms \<open>\<not> 0 \<le> x\<close> by (simp add: py_int_def ceiling_mono)
  qed
qed

lemma corrected_mono_thresholds:
  assumes "0 < d" and "t1 \<le> t2" and "p1 \<le> p2"
  shows "(if real_of_int (p1 * d) < t1 then p1 * d + d else p1 * d)
       \<le> (if real_of_int (p2 * d) < t2 then p2 * d + d else p2 * d)"
proof (cases "p1 = p2")
  case True
  then show ?thesis using assms(1,2) by auto
next
  case False
  then have "p1 + 1 \<le> p2" using assms(3) by simp
  then have "(p1 + 1) * d \<le> p2 * d" using assms(1) by (simp only: mult_right_mono less_imp_le)
  then have "p1 * d + d \<le> p2 * d" by (simp add: algebra_simps)
  then show ?thesis using assms(1,3) by auto
qed

lemma round_filters_double_value:
  assumes "d \<noteq> 0" and "w \<noteq> 0" and "round_filters_double f (Some w) d m = Inr c"
  shows "c = (let s = round_double (round_double (real_of_int f) * w);
                  g = max (case m of None \<Rightarrow> d | Some v \<Rightarrow> if v = 0 then d else v)
                        (py_int (round_double (s + round_double (real_of_int d / 2))) div d * d)
              in if real_of_int g < round_double (round_double 0.9 * s) then g + d else g)"
  using assms by (simp add: round_filters_double_def Let_def split: if_splits)

lemma round_filters_double_mono:
  assumes "0 \<le> f" and "0 < d"
    and "m = None \<or> (\<exists>k. 0 < k \<and> m = Some (k * d))"
    and "w1 \<noteq> 0" and "w2 \<noteq> 0" and "w1 \<le> w2"
    and "round_filters_double f (Some w1) d m = Inr a"
    and "round_filters_double f (Some w2) d m = Inr b"
  shows "a \<le> b"
proof -
  obtain k where k: "0 < k" "(case m of None \<Rightarrow> d | Some v \<Rightarrow> if v = 0 then d else v) = k * d"
  proof (cases m)
    case None
    then show ?thesis using that [of 1] by simp
  next
    case (Some v)
    then obtain k' where "0 < k'" "v = k' * d" using assms(3) by auto
    then show ?thesis using that [of k'] Some assms(2) by simp
  qed
  let ?F = "round_double (real_of_int f)"
  let ?s = "\<lambda>w. round_double (?F * w)"
  let ?y = "\<lambda>w. round_double (?s w + round_double (real_of_int d / 2))"
  let ?t = "\<lambda>w. round_double (round_double 0.9 * ?s w)"
  let ?p = "\<lambda>w. max k (py_int (?y w) div d)"
  have val: "c = (if real_of_int (?p w * d) < ?t w then ?p w * d + d else ?p w * d)"
    if "w \<noteq> 0" "round_filters_double f (Some w) d m = Inr c" for w c
  proof -
    have g: "max (k * d) (py_int (?y w) div d * d) = ?p w * d"
      using assms(2) by (simp add: max_def)
    have dnz: "d \<noteq> 0" using assms(2) by simp
    show ?thesis
      using round_filters_double_value [OF dnz that] unfolding Let_def k(2) g .
  qed
  have F: "0 \<le> ?F" using assms(1) by (intro round_double_nonneg) simp
  have s: "?s w1 \<le> ?s w2"
    using F assms(6) by (intro round_double_mono mult_left_mono)
  then have y: "?y w1 \<le> ?y w2" by (intro round_double_mono) simp
  have "0 \<le> round_double 0.9" by (intro round_double_nonneg) simp
  then have "round_double 0.9 * ?s w1 \<le> round_double 0.9 * ?s w2"
    using s by (rule mult_left_mono [rotated])
  then have t: "?t w1 \<le> ?t w2" by (rule round_double_mono)
  have "py_int (?y w1) div d \<le> py_int (?y w2) div d"
    using py_int_mono [OF y] assms(2) by (simp add: zdiv_mono1)
  then have p: "?p w1 \<le> ?p w2" by simp
  show ?thesis
    using corrected_mono_thresholds [OF assms(2) t p]
    unfolding val [OF assms(4,7)] val [OF assms(5,8)] .
qed

lemma round_double_fixed:
  assumes "x / 2 powi (exponent \<bar>x\<bar> - 52) = real_of_int k"
  shows "round_double x = x"
proof -
  let ?s = "(2::real) powi (exponent \<bar>x\<bar> - 52)"
  have "round_double x = real_of_int (round_half_even (x / ?s)) * ?s"
    by (simp add: round_double_def Let_def)
  also have "\<dots> = x / ?s * ?s" unfolding assms round_half_even_of_int ..
  also have "\<dots> = x" by simp
  finally show ?thesis .
qed

lemma round_double_idem:
  assumes "\<bar>round_double x\<bar> < 2 ^ 1024"
  shows "round_double (round_double x) = round_double x"
proof -
  let ?e = "exponent \<bar>x\<bar>"
  let ?s = "(2::real) powi (?e - 52)"
  let ?K = "round_half_even (x / ?s)"
  let ?v = "round_double x"
  let ?e' = "exponent \<bar>?v\<bar>"
  have s: "0 < ?s" by simp
  have v: "?v = real_of_int ?K * ?s" by (simp add: round_double_def Let_def)
  have absv: "\<bar>?v\<bar> = real_of_int \<bar>?K\<bar> * ?s"
    unfolding v using s by (simp add: abs_mult)
  have K: "\<bar>?K\<bar> \<le> 2 ^ 53"
  proof (cases "?e < 1023")
    case True
    have "\<bar>x\<bar> < 2 powi (?e + 1)" using True by (intro exponent_props(4)) simp_all
    then have "\<bar>x\<bar> < 2 ^ 53 * ?s" by (simp only: scale_53)
    then have "\<bar>x\<bar> / ?s < 2 ^ 53" using s by (simp add: pos_divide_less_eq)
    then have q: "\<bar>x\<bar> / ?s < real_of_int (2 ^ 53)" by simp
    have "x / ?s \<le> \<bar>x\<bar> / ?s" using s by (intro divide_right_mono) simp_all
    then have "x / ?s \<le> real_of_int (2 ^ 53)" using q by linarith
    then have a: "?K \<le> 2 ^ 53" by (rule round_half_even_le)
    have m: "- (\<bar>x\<bar> / ?s) = (- \<bar>x\<bar>) / ?s" by simp
    have "(- \<bar>x\<bar>) / ?s \<le> x / ?s" using s by (intro divide_right_mono) simp_all
    with m q have "- real_of_int (2 ^ 53) \<le> x / ?s" by linarith
    then have "real_of_int (- (2 ^ 53)) \<le> x / ?s" by (simp only: of_int_minus)
    then have "- (2 ^ 53) \<le> ?K" by (rule round_half_even_ge)
    with a show ?thesis by linarith
  next
    case False
    then have e: "?e = 1023" using exponent_props(2) [of "\<bar>x\<bar>"] by simp
    have "real_of_int \<bar>?K\<bar> * ?s < 2 ^ 1024" using assms absv by simp
    also have "(2::real) ^ 1024 = 2 powi (?e + 1)" unfolding e by simp
    also have "\<dots> = 2 ^ 53 * ?s" by (rule scale_53)
    finally have "real_of_int \<bar>?K\<bar> < 2 ^ 53" using s by simp
    then have "real_of_int \<bar>?K\<bar> < real_of_int (2 ^ 53)" by simp
    then have "\<bar>?K\<bar> < 2 ^ 53" by (simp only: of_int_less_iff)
    then show ?thesis by simp
  qed
  have vle: "\<bar>?v\<bar> \<le> 2 powi (?e + 1)"
  proof -
    have "real_of_int \<bar>?K\<bar> \<le> real_of_int (2 ^ 53)" using K by (simp only: of_int_le_iff)
    then have "real_of_int \<bar>?K\<bar> * ?s \<le> real_of_int (2 ^ 53) * ?s"
      using s by (intro mult_right_mono) simp_all
    also have "real_of_int (2 ^ 53) * ?s = 2 ^ 53 * ?s" by simp
    also have "\<dots> = 2 powi (?e + 1)" by (rule scale_53 [symmetric])
    finally show ?thesis unfolding absv .
  qed
  have e'le: "?e' \<le> ?e + 1"
  proof (rule ccontr)
    assume "\<not> ?e' \<le> ?e + 1"
    then have lt: "?e + 1 < ?e'" by simp
    then have "- 1022 < ?e'" using exponent_props(1) [of "\<bar>x\<bar>"] by linarith
    then have "2 powi ?e' \<le> \<bar>?v\<bar>" by (rule exponent_props(3))
    moreover have "(2::real) powi (?e + 1) < 2 powi ?e'"
      using lt by (intro power_int_strict_increasing) simp_all
    ultimately show False using vle by linarith
  qed
  have "\<exists>k. ?v / 2 powi (?e' - 52) = real_of_int k"
  proof (cases "?e' \<le> ?e")
    case True
    have "?v / 2 powi (?e' - 52) = real_of_int ?K * (2 powi (?e - 52) / 2 powi (?e' - 52))"
      unfolding v by simp
    also have "(2::real) powi (?e - 52) / 2 powi (?e' - 52) = 2 powi (?e - ?e')"
      by (simp add: power_int_diff [symmetric])
    also have "(2::real) powi (?e - ?e') = 2 ^ nat (?e - ?e')"
      using True by (simp add: power_int_def)
    finally have "?v / 2 powi (?e' - 52) = real_of_int (?K * 2 ^ nat (?e - ?e'))" by simp
    then show ?thesis by blast
  next
    case False
    then have e': "?e' = ?e + 1" using e'le by simp
    have "- 1022 < ?e'" using e' exponent_props(1) [of "\<bar>x\<bar>"] by linarith
    then have ge: "2 powi ?e' \<le> \<bar>?v\<bar>" by (rule exponent_props(3))
    have "2 ^ 53 * ?s = 2 powi (?e + 1)" by (rule scale_53 [symmetric])
    also have "\<dots> = 2 powi ?e'" by (simp only: e')
    also have "\<dots> \<le> \<bar>?v\<bar>" by (rule ge)
    also have "\<dots> = real_of_int \<bar>?K\<bar> * ?s" by (rule absv)
    finally have "2 ^ 53 * ?s \<le> real_of_int \<bar>?K\<bar> * ?s" .
    then have "2 ^ 53 \<le> real_of_int \<bar>?K\<bar>" using s by simp
    then have "real_of_int (2 ^ 53) \<le> real_of_int \<bar>?K\<bar>" by simp
    then have "2 ^ 53 \<le> \<bar>?K\<bar>" by (simp only: of_int_le_iff)
    with K have "\<bar>?K\<bar> = 2 ^ 53" by simp
    then have "?K = 2 ^ 53 \<or> ?K = - (2 ^ 53)" by linarith
    then have "even ?K" by (rule disjE) (simp_all only: even_minus, simp_all)
    then have "?K = 2 * (?K div 2)" by simp
    then have Kh: "real_of_int ?K = 2 * real_of_int (?K div 2)"
      by (metis of_int_mult of_int_numeral)
    have "(2::real) powi (?e' - 52) = 2 powi (?e - 52 + 1)" unfolding e' by (simp add: algebra_simps)
    also have "\<dots> = ?s * 2 powi 1" by (rule power_int_add) simp
    also have "\<dots> = 2 * ?s" by simp
    finally have "?v / 2 powi (?e' - 52) = real_of_int ?K * ?s / (2 * ?s)" unfolding v by simp
    also have "\<dots> = real_of_int (?K div 2)" using s Kh by simp
    finally show ?thesis by blast
  qed
  then obtain k where "?v / 2 powi (?e' - 52) = real_of_int k" ..
  then show ?thesis by (rule round_double_fixed)
qed

lemma round_filters_double_scaled_finite:
  assumes "w \<noteq> 0" and "round_filters_double f (Some w) d m = Inr c"
  shows "\<bar>round_double (round_double (real_of_int f) * w)\<bar> < 2 ^ 1024"
  using assms by (simp add: round_filters_double_def Let_def overflows_def split: if_splits)

lemma round_filters_double_ge_threshold:
  assumes "0 \<le> f" and "0 \<le> w" and "w \<noteq> 0" and "0 < d"
    and "round_filters_double f (Some w) d m = Inr c"
  shows "round_double (round_double 0.9 * round_double (round_double (real_of_int f) * w))
           \<le> real_of_int c"
proof -
  let ?F = "round_double (real_of_int f)"
  let ?s = "round_double (?F * w)"
  let ?h = "round_double (real_of_int d / 2)"
  let ?y = "round_double (?s + ?h)"
  let ?T = "round_double (round_double 0.9 * ?s)"
  let ?md = "case m of None \<Rightarrow> d | Some v \<Rightarrow> if v = 0 then d else v"
  let ?g = "max ?md (py_int ?y div d * d)"
  have dnz: "d \<noteq> 0" using assms(4) by simp
  have c: "c = (if real_of_int ?g < ?T then ?g + d else ?g)"
    using round_filters_double_value [OF dnz assms(3,5)] unfolding Let_def .
  have F: "0 \<le> ?F" using assms(1) by (intro round_double_nonneg) simp
  then have "0 \<le> ?F * w" using assms(2) by simp
  then have s0: "0 \<le> ?s" by (rule round_double_nonneg)
  have fixed: "round_double ?s = ?s"
    using round_filters_double_scaled_finite [OF assms(3,5)] by (rule round_double_idem)
  have h0: "0 \<le> ?h" using assms(4) by (intro round_double_nonneg) simp
  have "round_double ?s \<le> ?y" using h0 by (intro round_double_mono) simp
  then have sy: "?s \<le> ?y" unfolding fixed .
  have "round_double 0.9 \<le> round_double 1" by (intro round_double_mono) simp
  then have "round_double 0.9 \<le> 1" by (simp only: round_double_one)
  then have "round_double 0.9 * ?s \<le> 1 * ?s" using s0 by (rule mult_right_mono)
  then have "?T \<le> round_double ?s" by (intro round_double_mono) simp
  then have Ts: "?T \<le> ?s" unfolding fixed .
  show ?thesis
  proof (cases "real_of_int ?g < ?T")
    case False
    then show ?thesis unfolding c by simp
  next
    case True
    have y0: "0 \<le> ?y" using s0 sy by linarith
    then have py: "py_int ?y = \<lfloor>?y\<rfloor>" by (simp add: py_int_def)
    have "\<lfloor>?y\<rfloor> = \<lfloor>?y\<rfloor> div d * d + \<lfloor>?y\<rfloor> mod d" by simp
    moreover have "\<lfloor>?y\<rfloor> mod d < d" using assms(4) by simp
    ultimately have "\<lfloor>?y\<rfloor> + 1 \<le> \<lfloor>?y\<rfloor> div d * d + d" by linarith
    moreover have "\<lfloor>?y\<rfloor> div d * d \<le> ?g" unfolding py by simp
    ultimately have "\<lfloor>?y\<rfloor> + 1 \<le> ?g + d" by linarith
    then have "real_of_int (\<lfloor>?y\<rfloor> + 1) \<le> real_of_int (?g + d)" by (simp only: of_int_le_iff)
    moreover have "?y < real_of_int (\<lfloor>?y\<rfloor> + 1)" by linarith
    ultimately have "?T \<le> real_of_int (?g + d)" using Ts sy by linarith
    then show ?thesis unfolding c using True by (simp only: if_True)
  qed
qed

section \<open>Properties of the blocks\<close>

lemma SEBlock_layers:
  "set (layers_of (SEBlock K i r er df x))
     = {Activation ''sigmoid'', Conv2D (i * er) [1, 1] [1, 1] True, Swish,
        Conv2D (max 1 (py_int (real_of_int i * r))) [1, 1] [1, 1] True,
        SpatialMean (if (case df of None \<Rightarrow> K | Some f \<Rightarrow> f) = channels_first then [2, 3] else [1, 2])}
       \<union> set (layers_of x)"
  by (auto simp: SEBlock_def Let_def)

lemma SEBlock_merges:
  "set (merges_of (SEBlock K i r er df x)) = {Multiply} \<union> set (merges_of x)"
  by (auto simp: SEBlock_def Let_def)

lemma mb_transform_no_DropConnect:
  "l \<in> set (layers_of (mb_transform K i out ks st er se bnm bne df inputs))
     \<Longrightarrow> is_DropConnect l \<Longrightarrow> l \<in> set (layers_of inputs)"
  by (auto simp: mb_transform_def Let_def SEBlock_layers split: option.splits if_splits)

lemma mb_transform_no_Add:
  "Add \<in> set (merges_of (mb_transform K i out ks st er se bnm bne df inputs))
     \<Longrightarrow> Add \<in> set (merges_of inputs)"
  by (auto simp: mb_transform_def Let_def SEBlock_merges split: option.splits if_splits)

lemma mb_transform_top:
  "\<exists>y. mb_transform K i out ks st er se bnm bne df inputs =
     App (BatchNormalization (if (case df of None \<Rightarrow> K | Some f \<Rightarrow> f) = channels_first then 1 else - 1) bnm bne)
       (App (Conv2D out [1, 1] [1, 1] False) y)"
  by (simp add: mb_transform_def Let_def)

text \<open>
  Claim C3. For strides that are a list, \<open>MBConvBlock\<close> adds the block input to the
  transformed path exactly when \<open>id_skip\<close> holds, every stride is 1 and the input and
  output filter counts are equal; drop-connect is applied to the transformed path, under
  the addition, exactly when moreover the drop-connect rate is nonzero. The transformed
  path itself ends in a batch normalisation and holds no addition and no drop-connect
  layer that its input does not hold; so with strides (2, 2) or unequal filter counts the
  output is the transformed path alone.
\<close>

theorem MBConvBlock_residual:
  assumes "x = mb_transform K i out ks (Some ss) er se bnm bne df inputs"
  shows "MBConvBlock K i out ks (Some ss) er se skip dcr bnm bne df inputs =
           (if skip \<and> list_all (\<lambda>s. s = 1) ss \<and> i = out
            then Inr (Merge Add (if dcr \<noteq> 0 then App (DropConnect dcr) x else x) inputs)
            else Inr x)
       \<and> (\<forall>y. x \<noteq> Merge Add y inputs)
       \<and> (\<forall>l \<in> set (layers_of x). is_DropConnect l \<longrightarrow> l \<in> set (layers_of inputs))
       \<and> (Add \<in> set (merges_of x) \<longrightarrow> Add \<in> set (merges_of inputs))
       \<and> (ss = [2, 2] \<or> i \<noteq> out \<longrightarrow>
            MBConvBlock K i out ks (Some ss) er se skip dcr bnm bne df inputs = Inr x)"
proof -
  have a: "MBConvBlock K i out ks (Some ss) er se skip dcr bnm bne df inputs =
           (if skip \<and> list_all (\<lambda>s. s = 1) ss \<and> i = out
            then Inr (Merge Add (if dcr \<noteq> 0 then App (DropConnect dcr) x else x) inputs)
            else Inr x)"
    by (simp add: MBConvBlock_def assms Let_def)
  have b: "\<forall>y. x \<noteq> Merge Add y inputs"
    using mb_transform_top [of K i out ks "Some ss" er se bnm bne df inputs] assms by auto
  have c: "\<forall>l \<in> set (layers_of x). is_DropConnect l \<longrightarrow> l \<in> set (layers_of inputs)"
    using mb_transform_no_DropConnect assms by blast
  have d: "Add \<in> set (merges_of x) \<longrightarrow> Add \<in> set (merges_of inputs)"
    using mb_transform_no_Add assms by blast
  have e: "ss = [2, 2] \<or> i \<noteq> out \<longrightarrow>
            MBConvBlock K i out ks (Some ss) er se skip dcr bnm bne df inputs = Inr x"
    unfolding a by auto
  from a b c d e show ?thesis by blast
qed

theorem MBConvBlock_residual_witness:
  "MBConvBlock channels_last 16 16 3 (Some [1, 1]) 1 (Some 0.25) True 0.2 0.99 0.001 None
       (Input [Some 112, Some 112, Some 16] None)
     = Inr (Merge Add
              (App (DropConnect 0.2)
                 (mb_transform channels_last 16 16 3 (Some [1, 1]) 1 (Some 0.25) 0.99 0.001 None
                    (Input [Some 112, Some 112, Some 16] None)))
              (Input [Some 112, Some 112, Some 16] None))
   \<and> \<not> Add \<in> set (merges_of (mb_transform channels_last 16 16 3 (Some [1, 1]) 1 (Some 0.25) 0.99 0.001 None
                    (Input [Some 112, Some 112, Some 16] None)))"
  using MBConvBlock_residual [OF refl, where K = channels_last and i = 16 and out = 16
      and ks = 3 and ss = "[1, 1]" and er = 1 and se = "Some 0.25" and bnm = "0.99"
      and bne = "0.001" and df = None and inputs = "Input [Some 112, Some 112, Some 16] None"
      and skip = True and dcr = "0.2"]
    mb_transform_no_Add [of channels_last 16 16 3 "Some [1, 1]" 1 "Some 0.25" "0.99" "0.001" None
      "Input [Some 112, Some 112, Some 16] None"]
  by auto


section \<open>Properties of the assembler\<close>

lemma count_strides_acc:
  "list_all (\<lambda>ba. strides ba \<noteq> Some []) bl
     \<Longrightarrow> count_strides bl n = Inr (n + length (filter strided bl))"
proof (induction bl arbitrary: n)
  case Nil
  then show ?case by simp
next
  case (Cons ba bl)
  then show ?case
    by (cases "strides ba") (auto simp: strided_def split: list.splits)
qed

lemma min_size_eq:
  "list_all (\<lambda>ba. strides ba \<noteq> Some []) bl
     \<Longrightarrow> min_size bl = Inr (2 ^ (1 + length (filter strided bl)))"
  by (simp add: min_size_def count_strides_acc)

lemma build_model_rejected:
  assumes "min_size bl = Inr n"
    and "V (input_shape cfg) (case default_size cfg of None \<Rightarrow> 224 | Some s \<Rightarrow> s) n
           (case data_format cfg of None \<Rightarrow> K | Some f \<Rightarrow> f) (include_top cfg) (weights cfg) = Inl e"
  shows "build_model V K cfg bl = (Inl e, bl, None)"
  using assms by (simp add: build_model_def Let_def)

lemma EfficientNet_build_error:
  "build_model V K cfg bl = (Inl e, bl', g) \<Longrightarrow> EfficientNet V K cfg bl = (Inl e, bl', g)"
  by (simp add: EfficientNet_def)

lemma load_weights_outputs:
  "load_weights cfg d m = Inr m' \<Longrightarrow> model_outputs m' = model_outputs m"
  by (auto simp: load_weights_def split: if_splits option.splits)

lemma load_weights_unsupported:
  assumes "weights cfg = Some ''imagenet''" and "d \<noteq> 224" "d \<noteq> 240" "d \<noteq> 260" "d \<noteq> 300"
  shows "load_weights cfg d m = Inl (ValueError ''ImageNet weights can only be loaded with EfficientNetB0-7'')"
  using assms by (simp add: load_weights_def)

lemma build_model_graph:
  assumes "build_model V K cfg bl = (Inr m, bl', g)"
  shows "g = Some (model_outputs m)"
  using assms
  by (auto simp: build_model_def Let_def split: sum.splits prod.splits option.splits)

lemma build_model_head:
  assumes "build_model V K cfg bl = (Inr m, bl', g)"
  shows "\<exists>hf x. head_filters cfg = Inr hf
           \<and> model_outputs m =
               top cfg (case data_format cfg of None \<Rightarrow> K | Some f \<Rightarrow> f)
                 (head cfg (case data_format cfg of None \<Rightarrow> K | Some f \<Rightarrow> f) hf x)"
  using assms
  by (auto simp: build_model_def Let_def split: sum.splits prod.splits option.splits)

lemma build_model_blocks:
  assumes "build_model V K cfg bl = (Inr m, bl', g)"
  shows "\<exists>x x'. build_blocks K cfg (case data_format cfg of None \<Rightarrow> K | Some f \<Rightarrow> f) bl x = (None, bl', x')"
  using assms
  by (auto simp: build_model_def Let_def split: sum.splits prod.splits option.splits)



lemma EfficientNet_success:
  assumes "EfficientNet V K cfg bl = (Inr m', bl', g)"
  shows "\<exists>m. build_model V K cfg bl = (Inr m, bl', g) \<and> model_outputs m' = model_outputs m"
  using assms
  by (auto simp: EfficientNet_def load_weights_outputs split: sum.splits prod.splits)

lemma shape_of_top_avg:
  assumes "\<not> include_top cfg" and "pooling cfg = Some ''avg''"
  shows "shape_of (top cfg df (head cfg df' hf x)) = [Some hf]"
  using assms by (simp add: top_def head_def batch_norm_def Let_def)

lemma EfficientNet_notop_avg_shape:
  assumes "EfficientNet V K cfg bl = (Inr m, bl', g)"
    and "\<not> include_top cfg" and "pooling cfg = Some ''avg''"
  shows "\<exists>hf. head_filters cfg = Inr hf \<and> shape_of (model_outputs m) = [Some hf]"
proof -
  obtain m0 where m0: "build_model V K cfg bl = (Inr m0, bl', g)"
    and out: "model_outputs m = model_outputs m0"
    using EfficientNet_success [OF assms(1)] by blast
  from build_model_head [OF m0] obtain hf x where
    "head_filters cfg = Inr hf"
    "model_outputs m0 =
       top cfg (case data_format cfg of None \<Rightarrow> K | Some f \<Rightarrow> f)
         (head cfg (case data_format cfg of None \<Rightarrow> K | Some f \<Rightarrow> f) hf x)"
    by blast
  then show ?thesis
    using out shape_of_top_avg [OF assms(2,3)] by simp
qed

lemma head_filters_B1:
  "head_filters (variant_config 1.0 1.1 240 ish itop wts itensor pool cls drate dconn df) = Inr 1279"
  by (simp add: head_filters_def variant_config_def round_filters_def py_int_def)

text \<open>
  Claim C1. The head takes its filter count from \<open>round_filters\<close> with the depth
  coefficient in the place of the divisor. For the variant B1 (width coefficient 1.0,
  depth coefficient 1.1) built without top and with average pooling, every block list
  gives an output of shape (batch, 1279), where the divisor 8 of the stem and the blocks
  would give 1280, which is 1280 scaled by the width coefficient.
\<close>

theorem EfficientNetB1_head_filters:
  assumes "EfficientNetB1 V K bl ish False wts itensor (Some ''avg'') cls drate dconn df = (Inr m, bl', g)"
  shows "shape_of (model_outputs m) = [Some 1279]
       \<and> head_filters (variant_config 1.0 1.1 240 ish False wts itensor (Some ''avg'') cls drate dconn df)
           = round_filters 1280 (Some 1.0) 1.1 None
       \<and> round_filters 1280 (Some 1.0) 1.1 None = Inr 1279
       \<and> round_filters 1280 (Some 1.0) 8 None = Inr 1280"
proof -
  let ?cfg = "variant_config 1.0 1.1 240 ish False wts itensor (Some ''avg'') cls drate dconn df"
  have e: "EfficientNet V K ?cfg bl = (Inr m, bl', g)"
    using assms by (simp add: EfficientNetB1_def)
  have "\<not> include_top ?cfg" and "pooling ?cfg = Some ''avg''"
    by (simp_all add: variant_config_def)
  from EfficientNet_notop_avg_shape [OF e this]
  obtain hf where hf: "head_filters ?cfg = Inr hf" "shape_of (model_outputs m) = [Some hf]"
    by blast
  have "head_filters ?cfg = Inr 1279" by (rule head_filters_B1)
  with hf have s: "shape_of (model_outputs m) = [Some 1279]" by simp
  have h: "head_filters ?cfg = round_filters 1280 (Some 1.0) 1.1 None"
    by (simp add: head_filters_def variant_config_def)
  have r: "round_filters 1280 (Some 1.0) 1.1 None = Inr 1279"
    "round_filters 1280 (Some 1.0) 8 None = Inr 1280"
    by (simp_all add: round_filters_def py_int_def)
  from s h r show ?thesis by blast
qed

lemma layers_of_top_head: "layers_of (top cfg df (head cfg df' hf x)) \<noteq> []"
  by (simp add: top_def head_def Let_def)

text \<open>
  Claim C9, amended. With \<open>weights = 'imagenet'\<close> and a default size other than 224, 240,
  260 and 300, \<open>EfficientNet\<close> always raises; and when the graph itself builds, what it
  raises is the ValueError of the unsupported variant, after the whole graph has been
  constructed: the tensor built by then is the output of the model, which holds layers.
\<close>

theorem unsupported_variant_raised_after_build:
  assumes "weights cfg = Some ''imagenet''"
    and "(case default_size cfg of None \<Rightarrow> 224 | Some s \<Rightarrow> s) \<notin> {224, 240, 260, 300}"
  shows "(\<exists>e bl' g. EfficientNet V K cfg bl = (Inl e, bl', g))
       \<and> (\<forall>m bl' g. build_model V K cfg bl = (Inr m, bl', g) \<longrightarrow>
            EfficientNet V K cfg bl =
              (Inl (ValueError ''ImageNet weights can only be loaded with EfficientNetB0-7''),
               bl', Some (model_outputs m))
            \<and> layers_of (model_outputs m) \<noteq> [])"
proof -
  let ?d = "case default_size cfg of None \<Rightarrow> 224 | Some s \<Rightarrow> s"
  let ?err = "ValueError ''ImageNet weights can only be loaded with EfficientNetB0-7''"
  have lw: "load_weights cfg ?d m = Inl ?err" for m
    using assms by (intro load_weights_unsupported) auto
  have b: "EfficientNet V K cfg bl = (Inl ?err, bl', Some (model_outputs m))
           \<and> layers_of (model_outputs m) \<noteq> []"
    if "build_model V K cfg bl = (Inr m, bl', g)" for m bl' g
  proof -
    have g: "g = Some (model_outputs m)" using build_model_graph [OF that] .
    have "EfficientNet V K cfg bl = (Inl ?err, bl', g)"
      using that lw by (simp add: EfficientNet_def)
    moreover have "layers_of (model_outputs m) \<noteq> []"
      using build_model_head [OF that] by (auto simp: layers_of_top_head)
    ultimately show ?thesis using g by simp
  qed
  have a: "\<exists>e bl' g. EfficientNet V K cfg bl = (Inl e, bl', g)"
  proof (cases "build_model V K cfg bl")
    case (fields r bl' g)
    show ?thesis
    proof (cases r)
      case (Inl e)
      then show ?thesis using fields EfficientNet_build_error by blast
    next
      case (Inr m)
      then show ?thesis using fields b by blast
    qed
  qed
  from a b show ?thesis by blast
qed



lemma MBConvBlock_ok:
  "\<exists>y. MBConvBlock K i out ks (Some ss) er se skip dcr bnm bne df x = Inr y"
  by (simp add: MBConvBlock_def Let_def)

lemma round_filters_ok: "d \<noteq> 0 \<Longrightarrow> \<exists>r. round_filters f w d m = Inr r"
  by (simp add: round_filters_def Let_def split: option.splits)

lemma repeat_blocks_funpow:
  assumes "\<And>t. MBConvBlock K (input_filters ba) (output_filters ba) (kernel_size ba) (strides ba)
             (expand_ratio ba) (se_ratio ba) (identity_skip ba) (drop_connect_rate cfg)
             (batch_norm_momentum cfg) (batch_norm_epsilon cfg) (Some df) t = Inr (blk t)"
  shows "repeat_blocks n K cfg df ba x = (None, ba, (blk ^^ n) x)"
proof (induction n arbitrary: x)
  case 0
  show ?case by simp
next
  case (Suc n)
  have "repeat_blocks (Suc n) K cfg df ba x = repeat_blocks n K cfg df ba (blk x)"
    by (simp add: assms)
  also have "\<dots> = (None, ba, (blk ^^ n) (blk x))" by (rule Suc.IH)
  also have "(blk ^^ n) (blk x) = (blk ^^ Suc n) x" by (simp add: funpow_swap1)
  finally show ?case .
qed

lemma build_stage_success:
  assumes "build_stage K cfg df ba x = (None, ba', x')"
  shows "\<exists>i out x1 blk.
      0 < num_repeat ba
    \<and> round_filters (input_filters ba) (width_coefficient cfg) (depth_divisor cfg) (min_depth cfg) = Inr i
    \<and> round_filters (output_filters ba) (width_coefficient cfg) (depth_divisor cfg) (min_depth cfg) = Inr out
    \<and> MBConvBlock K i out (kernel_size ba) (strides ba) (expand_ratio ba) (se_ratio ba)
          (identity_skip ba) (drop_connect_rate cfg) (batch_norm_momentum cfg)
          (batch_norm_epsilon cfg) (Some df) x = Inr x1
    \<and> (\<forall>t. MBConvBlock K out out (kernel_size ba) (Some [1, 1]) (expand_ratio ba) (se_ratio ba)
          (identity_skip ba) (drop_connect_rate cfg) (batch_norm_momentum cfg)
          (batch_norm_epsilon cfg) (Some df) t = Inr (blk t))
    \<and> x' = (blk ^^ nat (round_repeats (num_repeat ba) (depth_coefficient cfg) - 1)) x1
    \<and> ba' = (if 1 < round_repeats (num_repeat ba) (depth_coefficient cfg)
             then ba\<lparr>input_filters := out, output_filters := out, strides := Some [1, 1],
                     num_repeat := round_repeats (num_repeat ba) (depth_coefficient cfg)\<rparr>
             else ba\<lparr>input_filters := i, output_filters := out,
                     num_repeat := round_repeats (num_repeat ba) (depth_coefficient cfg)\<rparr>)"
proof -
  let ?n = "round_repeats (num_repeat ba) (depth_coefficient cfg)"
  let ?W = "width_coefficient cfg" and ?D = "depth_divisor cfg" and ?M = "min_depth cfg"
  have pos: "0 < num_repeat ba"
    using assms by (auto simp: build_stage_def split: if_splits)
  obtain i where i: "round_filters (input_filters ba) ?W ?D ?M = Inr i"
    using assms pos by (cases "round_filters (input_filters ba) ?W ?D ?M") (auto simp: build_stage_def)
  obtain out where out: "round_filters (output_filters ba) ?W ?D ?M = Inr out"
    using assms pos i
    by (cases "round_filters (output_filters ba) ?W ?D ?M") (auto simp: build_stage_def Let_def)
  let ?mb = "MBConvBlock K i out (kernel_size ba) (strides ba) (expand_ratio ba) (se_ratio ba)
          (identity_skip ba) (drop_connect_rate cfg) (batch_norm_momentum cfg)
          (batch_norm_epsilon cfg) (Some df) x"
  obtain x1 where x1: "?mb = Inr x1"
    using assms pos i out by (cases ?mb) (auto simp: build_stage_def Let_def)
  define blk where "blk = (\<lambda>t. projr (MBConvBlock K out out (kernel_size ba) (Some [1, 1])
          (expand_ratio ba) (se_ratio ba) (identity_skip ba) (drop_connect_rate cfg)
          (batch_norm_momentum cfg) (batch_norm_epsilon cfg) (Some df) t))"
  have blk: "MBConvBlock K out out (kernel_size ba) (Some [1, 1]) (expand_ratio ba) (se_ratio ba)
          (identity_skip ba) (drop_connect_rate cfg) (batch_norm_momentum cfg)
          (batch_norm_epsilon cfg) (Some df) t = Inr (blk t)" for t
    using MBConvBlock_ok [of K out out "kernel_size ba" "[1, 1]" "expand_ratio ba" "se_ratio ba"
        "identity_skip ba" "drop_connect_rate cfg" "batch_norm_momentum cfg"
        "batch_norm_epsilon cfg" "Some df" t]
    by (auto simp: blk_def)
  show ?thesis
  proof (cases "1 < ?n")
    case True
    let ?ba4 = "ba\<lparr>input_filters := out, output_filters := out, strides := Some [1, 1],
                     num_repeat := ?n\<rparr>"
    have e: "ba\<lparr>output_filters := out, num_repeat := ?n, input_filters := out,
                 strides := Some [1, 1]\<rparr> = ?ba4"
      by (cases ba) simp
    have st: "build_stage K cfg df ba x = repeat_blocks (nat (?n - 1)) K cfg df ?ba4 x1"
      using pos i out x1 True by (simp add: build_stage_def Let_def e)
    have "repeat_blocks (nat (?n - 1)) K cfg df ?ba4 x1 = (None, ?ba4, (blk ^^ nat (?n - 1)) x1)"
      by (rule repeat_blocks_funpow) (simp add: blk)
    with st assms have "ba' = ?ba4" "x' = (blk ^^ nat (?n - 1)) x1" by simp_all
    with pos i out x1 blk True show ?thesis by auto
  next
    case False
    let ?ba3 = "ba\<lparr>input_filters := i, output_filters := out, num_repeat := ?n\<rparr>"
    have z: "nat (?n - 1) = 0" using False by simp
    have st: "build_stage K cfg df ba x = (None, ?ba3, x1)"
      using pos i out x1 False by (simp add: build_stage_def Let_def)
    with assms have "ba' = ?ba3" "x' = x1" by simp_all
    with pos i out x1 blk False z show ?thesis by auto
  qed
qed

lemma build_blocks_stages:
  assumes "build_blocks K cfg df bl x = (None, bl', x')"
  shows "length bl' = length bl
       \<and> (\<forall>k < length bl. \<exists>xk xk'. build_stage K cfg df (bl ! k) xk = (None, bl' ! k, xk'))"
  using assms
proof (induction bl arbitrary: x bl' x')
  case Nil
  then show ?case by simp
next
  case (Cons ba rest)
  obtain r ba1 x1 where s: "build_stage K cfg df ba x = (r, ba1, x1)"
    by (cases "build_stage K cfg df ba x") auto
  have r: "r = None" using Cons.prems s by (cases r) auto
  obtain r2 rest' x2 where b: "build_blocks K cfg df rest x1 = (r2, rest', x2)"
    by (cases "build_blocks K cfg df rest x1") auto
  have eq: "r2 = None" "bl' = ba1 # rest'" "x' = x2"
    using Cons.prems s r b by auto
  have ih: "length rest' = length rest
       \<and> (\<forall>k < length rest. \<exists>xk xk'. build_stage K cfg df (rest ! k) xk = (None, rest' ! k, xk'))"
    using Cons.IH b eq(1) by blast
  have "\<exists>xk xk'. build_stage K cfg df ((ba # rest) ! k) xk = (None, (ba1 # rest') ! k, xk')"
    if "k < length (ba # rest)" for k
  proof (cases k)
    case 0
    then show ?thesis using s r by auto
  next
    case (Suc j)
    then show ?thesis using ih that by auto
  qed
  then show ?case using ih eq by simp
qed



lemma repeat_blocks_ok:
  "strides ba = Some ss \<Longrightarrow> \<exists>x'. repeat_blocks n K cfg df ba x = (None, ba, x')"
proof (induction n arbitrary: x)
  case 0
  show ?case by simp
next
  case (Suc n)
  obtain y where "MBConvBlock K (input_filters ba) (output_filters ba) (kernel_size ba) (Some ss)
             (expand_ratio ba) (se_ratio ba) (identity_skip ba) (drop_connect_rate cfg)
             (batch_norm_momentum cfg) (batch_norm_epsilon cfg) (Some df) x = Inr y"
    using MBConvBlock_ok by blast
  then show ?case using Suc by simp
qed

lemma build_stage_ok:
  assumes "0 < num_repeat ba" and "strides ba = Some ss" and "depth_divisor cfg \<noteq> 0"
  shows "\<exists>ba' x'. build_stage K cfg df ba x = (None, ba', x')"
proof -
  let ?W = "width_coefficient cfg" and ?D = "depth_divisor cfg" and ?M = "min_depth cfg"
  let ?n = "round_repeats (num_repeat ba) (depth_coefficient cfg)"
  obtain i where i: "round_filters (input_filters ba) ?W ?D ?M = Inr i"
    using round_filters_ok [OF assms(3)] by blast
  obtain out where out: "round_filters (output_filters ba) ?W ?D ?M = Inr out"
    using round_filters_ok [OF assms(3)] by blast
  obtain x1 where x1: "MBConvBlock K i out (kernel_size ba) (Some ss) (expand_ratio ba) (se_ratio ba)
          (identity_skip ba) (drop_connect_rate cfg) (batch_norm_momentum cfg)
          (batch_norm_epsilon cfg) (Some df) x = Inr x1"
    using MBConvBlock_ok by blast
  let ?ba3 = "ba\<lparr>input_filters := i, output_filters := out, num_repeat := ?n\<rparr>"
  let ?ba4 = "if 1 < ?n then ?ba3\<lparr>input_filters := output_filters ?ba3, strides := Some [1, 1]\<rparr>
              else ?ba3"
  have st: "build_stage K cfg df ba x = repeat_blocks (nat (num_repeat ?ba4 - 1)) K cfg df ?ba4 x1"
    using assms(1,2) i out x1 by (simp add: build_stage_def Let_def)
  have "\<exists>ss'. strides ?ba4 = Some ss'" using assms(2) by simp
  then obtain ss' where "strides ?ba4 = Some ss'" ..
  from repeat_blocks_ok [OF this] st show ?thesis by metis
qed

lemma build_blocks_ok:
  assumes "list_all (\<lambda>ba. 0 < num_repeat ba \<and> strides ba \<noteq> None) bl"
    and "depth_divisor cfg \<noteq> 0"
  shows "\<exists>bl' x'. build_blocks K cfg df bl x = (None, bl', x')"
  using assms(1)
proof (induction bl arbitrary: x)
  case Nil
  show ?case by simp
next
  case (Cons ba rest)
  then obtain ss where "0 < num_repeat ba" "strides ba = Some ss" by auto
  from build_stage_ok [OF this assms(2)]
  obtain ba' x1 where s: "build_stage K cfg df ba x = (None, ba', x1)" by blast
  from Cons obtain rest' x2 where "build_blocks K cfg df rest x1 = (None, rest', x2)"
    by force
  with s show ?case by simp
qed

lemma build_model_ok:
  assumes "list_all (\<lambda>ba. 0 < num_repeat ba \<and> strides ba \<noteq> None \<and> strides ba \<noteq> Some []) bl"
    and "depth_divisor cfg \<noteq> 0"
    and "depth_coefficient cfg = Some dc" and "dc \<noteq> 0"
    and "\<And>n. V (input_shape cfg) (case default_size cfg of None \<Rightarrow> 224 | Some s \<Rightarrow> s) n
           (case data_format cfg of None \<Rightarrow> K | Some f \<Rightarrow> f) (include_top cfg) (weights cfg)
           = Inr shp"
  shows "\<exists>m bl' g. build_model V K cfg bl = (Inr m, bl', g)"
proof -
  let ?df = "case data_format cfg of None \<Rightarrow> K | Some f \<Rightarrow> f"
  have "list_all (\<lambda>ba. strides ba \<noteq> Some []) bl"
    using assms(1) by (simp add: list_all_iff)
  then have m: "min_size bl = Inr (2 ^ (1 + length (filter strided bl)))"
    by (rule min_size_eq)
  obtain sf where sf: "round_filters 32 (width_coefficient cfg) (depth_divisor cfg) (min_depth cfg) = Inr sf"
    using round_filters_ok [OF assms(2)] by blast
  obtain hf where "round_filters 1280 (width_coefficient cfg) dc (min_depth cfg) = Inr hf"
    using round_filters_ok [OF assms(4)] by blast
  then have hf: "head_filters cfg = Inr hf"
    using assms(3) by (simp add: head_filters_def)
  have "list_all (\<lambda>ba. 0 < num_repeat ba \<and> strides ba \<noteq> None) bl"
    using assms(1) by (simp add: list_all_iff)
  from build_blocks_ok [OF this assms(2)]
  obtain bl' x' where
    "build_blocks K cfg ?df bl (stem cfg ?df sf (network_inputs cfg shp)) = (None, bl', x')"
    by blast
  then show ?thesis
    using m sf hf assms(5) by (simp add: build_model_def Let_def)
qed

lemma EfficientNet_no_weights:
  assumes "weights cfg = None" and "build_model V K cfg bl = (Inr m, bl', g)"
  shows "EfficientNet V K cfg bl = (Inr m, bl', g)"
  using assms by (simp add: EfficientNet_def load_weights_def)

lemma two_stages_ok:
  "list_all (\<lambda>ba. 0 < num_repeat ba \<and> strides ba \<noteq> None \<and> strides ba \<noteq> Some []) two_stages"
  by (simp add: two_stages_def)

lemma variant_build_ok:
  assumes "list_all (\<lambda>ba. 0 < num_repeat ba \<and> strides ba \<noteq> None \<and> strides ba \<noteq> Some []) bl"
    and "d \<noteq> 0"
  shows "\<exists>m bl' g. build_model check_min_size K
            (variant_config w d dsize None itop wts itensor pool cls drate dconn df) bl
          = (Inr m, bl', g)"
proof -
  let ?cfg = "variant_config w d dsize None itop wts itensor pool cls drate dconn df"
  let ?df = "case data_format ?cfg of None \<Rightarrow> K | Some f \<Rightarrow> f"
  have a: "depth_divisor ?cfg \<noteq> 0" by (simp add: variant_config_def)
  have b: "depth_coefficient ?cfg = Some d" by (simp add: variant_config_def)
  have c: "check_min_size (input_shape ?cfg) (case default_size ?cfg of None \<Rightarrow> 224 | Some s \<Rightarrow> s) n
             ?df (include_top ?cfg) (weights ?cfg)
           = Inr (if ?df = channels_first then [Some 3, Some dsize, Some dsize]
                  else [Some dsize, Some dsize, Some 3])" for n
    by (simp add: variant_config_def check_min_size_def)
  show ?thesis
    using build_model_ok [of bl ?cfg d check_min_size K, OF assms(1) a b assms(2) c] .
qed

theorem EfficientNetB1_head_filters_witness:
  "\<exists>m bl' g. EfficientNetB1 check_min_size channels_last two_stages None False None None
                (Some ''avg'') 1000 0.2 0 None = (Inr m, bl', g)
            \<and> shape_of (model_outputs m) = [Some 1279]"
proof -
  obtain m bl' g where
    "build_model check_min_size channels_last
       (variant_config 1.0 1.1 240 None False None None (Some ''avg'') 1000 0.2 0 None) two_stages
     = (Inr m, bl', g)"
    using variant_build_ok [OF two_stages_ok, of "1.1"] by fastforce
  then have e: "EfficientNetB1 check_min_size channels_last two_stages None False None None
                (Some ''avg'') 1000 0.2 0 None = (Inr m, bl', g)"
    unfolding EfficientNetB1_def
    by (intro EfficientNet_no_weights) (simp_all add: variant_config_def)
  from EfficientNetB1_head_filters [OF e] e show ?thesis by blast
qed

theorem unsupported_variant_raised_after_build_witness:
  "weights (variant_config 1.4 1.8 380 None False (Some ''imagenet'') None (Some ''avg'') 1000 0.4 0 None)
     = Some ''imagenet''
   \<and> (380::int) \<notin> {224, 240, 260, 300}
   \<and> (\<exists>e bl' g. EfficientNet check_min_size channels_last
         (variant_config 1.4 1.8 380 None False (Some ''imagenet'') None (Some ''avg'') 1000 0.4 0 None)
         two_stages = (Inl e, bl', g))"
proof -
  let ?cfg = "variant_config 1.4 1.8 380 None False (Some ''imagenet'') None (Some ''avg'') 1000 0.4 0 None"
  have a: "weights ?cfg = Some ''imagenet''" by (simp add: variant_config_def)
  have b: "(case default_size ?cfg of None \<Rightarrow> 224 | Some s \<Rightarrow> s) \<notin> {224, 240, 260, 300}"
    by (simp add: variant_config_def)
  from unsupported_variant_raised_after_build [OF a b, of check_min_size channels_last two_stages] a
  show ?thesis by simp
qed

text \<open>
  Claim C9 as stated fails: for the variant B4 with \<open>weights = 'imagenet'\<close>, without top
  and with average pooling, the ValueError is raised when the graph has been built up to
  its pooled output of shape (batch, 1791).
\<close>

theorem unsupported_variant_raised_late:
  "fst (EfficientNetB4 check_min_size channels_last two_stages None False (Some ''imagenet'') None
          (Some ''avg'') 1000 0.4 0 None)
     = Inl (ValueError ''ImageNet weights can only be loaded with EfficientNetB0-7'')
   \<and> map_option shape_of
        (snd (snd (EfficientNetB4 check_min_size channels_last two_stages None False
                     (Some ''imagenet'') None (Some ''avg'') 1000 0.4 0 None)))
     = Some [Some 1791]"
proof -
  let ?cfg = "variant_config 1.4 1.8 380 None False (Some ''imagenet'') None (Some ''avg'') 1000 0.4 0 None"
  let ?err = "ValueError ''ImageNet weights can only be loaded with EfficientNetB0-7''"
  obtain m bl' g where bm: "build_model check_min_size channels_last ?cfg two_stages = (Inr m, bl', g)"
    using variant_build_ok [OF two_stages_ok, of "1.8"] by fastforce
  have g: "g = Some (model_outputs m)" using build_model_graph [OF bm] .
  have "load_weights ?cfg 380 m = Inl ?err"
    by (rule load_weights_unsupported) (simp_all add: variant_config_def)
  then have e: "EfficientNet check_min_size channels_last ?cfg two_stages
                  = (Inl ?err, bl', Some (model_outputs m))"
    using bm g by (simp add: EfficientNet_def variant_config_def)
  obtain hf x where hf: "head_filters ?cfg = Inr hf"
    and out: "model_outputs m =
       top ?cfg (case data_format ?cfg of None \<Rightarrow> channels_last | Some f \<Rightarrow> f)
         (head ?cfg (case data_format ?cfg of None \<Rightarrow> channels_last | Some f \<Rightarrow> f) hf x)"
    using build_model_head [OF bm] by blast
  have "head_filters ?cfg = Inr 1791"
    by (simp add: head_filters_def variant_config_def round_filters_def py_int_def)
  with hf have "hf = 1791" by simp
  moreover have "\<not> include_top ?cfg" "pooling ?cfg = Some ''avg''"
    by (simp_all add: variant_config_def)
  ultimately have "shape_of (model_outputs m) = [Some 1791]"
    using out shape_of_top_avg by simp
  with e show ?thesis by (simp add: EfficientNetB4_def)
qed

text \<open>
  Claim C5. \<open>EfficientNet\<close> is a function of its arguments and returns the caller's block
  list as it leaves it. When it returns a model, the list has kept its length, and for
  every stage: the filter counts are the \<open>round_filters\<close> values and the repeat count the
  \<open>round_repeats\<close> value; the first block of the stage is built from the rescaled filter
  counts and the stage's own strides; the rest of the stage is the block with strides
  (1, 1) and equal input and output filter counts, iterated one time less than the
  rescaled repeat count; and when that count exceeds 1, the stage is left with its input
  filters equal to its output filters and strides (1, 1).
\<close>

theorem EfficientNet_mutates_block_list:
  assumes "EfficientNet V K cfg bl = (Inr m, bl', g)" and "k < length bl"
  shows "length bl' = length bl
     \<and> (\<exists>i out x x1 x' blk.
          round_filters (input_filters (bl ! k)) (width_coefficient cfg) (depth_divisor cfg)
            (min_depth cfg) = Inr i
        \<and> round_filters (output_filters (bl ! k)) (width_coefficient cfg) (depth_divisor cfg)
            (min_depth cfg) = Inr out
        \<and> MBConvBlock K i out (kernel_size (bl ! k)) (strides (bl ! k)) (expand_ratio (bl ! k))
            (se_ratio (bl ! k)) (identity_skip (bl ! k)) (drop_connect_rate cfg)
            (batch_norm_momentum cfg) (batch_norm_epsilon cfg)
            (Some (case data_format cfg of None \<Rightarrow> K | Some f \<Rightarrow> f)) x = Inr x1
        \<and> (\<forall>t. MBConvBlock K out out (kernel_size (bl ! k)) (Some [1, 1]) (expand_ratio (bl ! k))
            (se_ratio (bl ! k)) (identity_skip (bl ! k)) (drop_connect_rate cfg)
            (batch_norm_momentum cfg) (batch_norm_epsilon cfg)
            (Some (case data_format cfg of None \<Rightarrow> K | Some f \<Rightarrow> f)) t = Inr (blk t))
        \<and> build_stage K cfg (case data_format cfg of None \<Rightarrow> K | Some f \<Rightarrow> f) (bl ! k) x
            = (None, bl' ! k, x')
        \<and> x' = (blk ^^ nat (round_repeats (num_repeat (bl ! k)) (depth_coefficient cfg) - 1)) x1
        \<and> bl' ! k =
            (if 1 < round_repeats (num_repeat (bl ! k)) (depth_coefficient cfg)
             then (bl ! k)\<lparr>input_filters := out, output_filters := out, strides := Some [1, 1],
                     num_repeat := round_repeats (num_repeat (bl ! k)) (depth_coefficient cfg)\<rparr>
             else (bl ! k)\<lparr>input_filters := i, output_filters := out,
                     num_repeat := round_repeats (num_repeat (bl ! k)) (depth_coefficient cfg)\<rparr>))"
proof -
  let ?df = "case data_format cfg of None \<Rightarrow> K | Some f \<Rightarrow> f"
  obtain m0 where "build_model V K cfg bl = (Inr m0, bl', g)"
    using EfficientNet_success [OF assms(1)] by blast
  then obtain x0 x0' where "build_blocks K cfg ?df bl x0 = (None, bl', x0')"
    using build_model_blocks by blast
  from build_blocks_stages [OF this] assms(2)
  obtain x x' where len: "length bl' = length bl"
    and st: "build_stage K cfg ?df (bl ! k) x = (None, bl' ! k, x')"
    by blast
  from build_stage_success [OF st] st len show ?thesis by blast
qed

theorem EfficientNet_mutates_block_list_witness:
  "\<exists>m bl' g. EfficientNetB0 check_min_size channels_last two_stages None False None None
                (Some ''avg'') 1000 0.2 0 None = (Inr m, bl', g)
     \<and> (1::nat) < length two_stages
     \<and> length bl' = 2
     \<and> input_filters (bl' ! 1) = 24 \<and> output_filters (bl' ! 1) = 24
     \<and> strides (bl' ! 1) = Some [1, 1] \<and> num_repeat (bl' ! 1) = 2"
proof -
  let ?cfg = "variant_config 1.0 1.0 224 None False None None (Some ''avg'') 1000 0.2 0 None"
  obtain m bl' g where
    "build_model check_min_size channels_last ?cfg two_stages = (Inr m, bl', g)"
    using variant_build_ok [OF two_stages_ok, of "1.0"] by fastforce
  then have e: "EfficientNet check_min_size channels_last ?cfg two_stages = (Inr m, bl', g)"
    by (intro EfficientNet_no_weights) (simp_all add: variant_config_def)
  have k: "(1::nat) < length two_stages" by (simp add: two_stages_def)
  have rf: "round_filters 24 (Some 1) 8 None = Inr 24"
    by (simp add: round_filters_def py_int_def)
  have rr: "round_repeats 2 (Some 1) = 2" by (simp add: round_repeats_def)
  have "length bl' = 2
     \<and> input_filters (bl' ! 1) = 24 \<and> output_filters (bl' ! 1) = 24
     \<and> strides (bl' ! 1) = Some [1, 1] \<and> num_repeat (bl' ! 1) = 2"
    using EfficientNet_mutates_block_list [OF e k]
    by (auto simp: two_stages_def variant_config_def rf rr)
  with e k show ?thesis unfolding EfficientNetB0_def by blast
qed

subsection \<open>The validation of the input shape\<close>

lemma too_small_cases:
  assumes "too_small df s n"
  obtains a b c where "s = [a, b, c]"
    and "if df = channels_first then dim_less b n \<or> dim_less c n
         else dim_less a n \<or> dim_less b n"
  using assms by (induction df s n rule: too_small.induct) simp_all

lemma obtain_input_shape_rejects:
  assumes "too_small df s n"
    and "\<not> (wts = Some ''imagenet'' \<and> rf
            \<and> s = (if df = channels_first then [Some 3, Some ds, Some ds]
                     else [Some ds, Some ds, Some 3]))"
  shows "\<exists>e. obtain_input_shape (Some s) ds n df rf wts = Inl e"
proof -
  from assms(1) obtain a b c where s: "s = [a, b, c]"
    and small: "if df = channels_first then dim_less b n \<or> dim_less c n
                else dim_less a n \<or> dim_less b n"
    by (rule too_small_cases)
  show ?thesis
  proof (cases "wts = Some ''imagenet'' \<and> rf")
    case True
    then show ?thesis using assms(2) s
      by (simp add: obtain_input_shape_def Let_def)
  next
    case False
    show ?thesis
    proof (cases "df = channels_first")
      case True
      then have "dim_less b n \<or> dim_less c n" using small by simp
      then show ?thesis using False True s
        by (simp add: obtain_input_shape_def Let_def)
    next
      case df: False
      then have "dim_less a n \<or> dim_less b n" using small by simp
      then show ?thesis using False df s
        by (simp add: obtain_input_shape_def Let_def)
    qed
  qed
qed

text \<open>
  Claim C4, amended. For a block list whose strides are None or non-empty, the minimum
  size that the assembler computes is 2 to the power of 1 plus the number of stages whose
  first stride exceeds 1, and the validation of the input shape is called with it before
  any layer is constructed. An input shape smaller than that along a spatial axis makes
  \<open>EfficientNet\<close> raise with no layer constructed and the block list untouched, unless the
  ImageNet weights are loaded with the top and the input shape is the default shape.
\<close>

theorem min_size_rejects_unless_default_shape:
  assumes "list_all (\<lambda>ba. strides ba \<noteq> Some []) bl"
    and "input_shape cfg = Some ish"
    and "too_small (case data_format cfg of None \<Rightarrow> K | Some f \<Rightarrow> f) ish
           (2 ^ (1 + length (filter strided bl)))"
    and "\<not> (weights cfg = Some ''imagenet'' \<and> include_top cfg
            \<and> ish = (if (case data_format cfg of None \<Rightarrow> K | Some f \<Rightarrow> f) = channels_first
                       then [Some 3, Some (case default_size cfg of None \<Rightarrow> 224 | Some s \<Rightarrow> s),
                             Some (case default_size cfg of None \<Rightarrow> 224 | Some s \<Rightarrow> s)]
                       else [Some (case default_size cfg of None \<Rightarrow> 224 | Some s \<Rightarrow> s),
                             Some (case default_size cfg of None \<Rightarrow> 224 | Some s \<Rightarrow> s), Some 3]))"
  shows "min_size bl = Inr (2 ^ (1 + length (filter strided bl)))
       \<and> (\<exists>e. EfficientNet obtain_input_shape K cfg bl = (Inl e, bl, None))"
proof -
  let ?df = "case data_format cfg of None \<Rightarrow> K | Some f \<Rightarrow> f"
  let ?ds = "case default_size cfg of None \<Rightarrow> 224 | Some s \<Rightarrow> s"
  have m: "min_size bl = Inr (2 ^ (1 + length (filter strided bl)))"
    using assms(1) by (rule min_size_eq)
  from obtain_input_shape_rejects [OF assms(3), of "weights cfg" "include_top cfg" ?ds] assms(4)
  obtain e where
    "obtain_input_shape (Some ish) ?ds (2 ^ (1 + length (filter strided bl))) ?df
       (include_top cfg) (weights cfg) = Inl e"
    by blast
  then have "build_model obtain_input_shape K cfg bl = (Inl e, bl, None)"
    using build_model_rejected [OF m, of obtain_input_shape cfg K e] assms(2) by simp
  then have "EfficientNet obtain_input_shape K cfg bl = (Inl e, bl, None)"
    by (rule EfficientNet_build_error)
  with m show ?thesis by blast
qed

theorem min_size_rejects_unless_default_shape_witness:
  "min_size two_stages = Inr 4
   \<and> (\<exists>e. EfficientNet obtain_input_shape channels_last
          (variant_config 1.0 1.0 224 (Some [Some 3, Some 3, Some 3]) True (Some ''imagenet'') None
             None 1000 0.2 0 None)
          two_stages = (Inl e, two_stages, None))"
proof -
  let ?cfg = "variant_config 1.0 1.0 224 (Some [Some 3, Some 3, Some 3]) True (Some ''imagenet'')
                None None 1000 0.2 0 None"
  have a: "list_all (\<lambda>ba. strides ba \<noteq> Some []) two_stages"
    by (simp add: two_stages_def)
  have b: "input_shape ?cfg = Some [Some 3, Some 3, Some 3]"
    by (simp add: variant_config_def)
  have n: "length (filter strided two_stages) = 1"
    by (simp add: two_stages_def strided_def)
  have c: "too_small (case data_format ?cfg of None \<Rightarrow> channels_last | Some f \<Rightarrow> f)
             [Some 3, Some 3, Some 3] (2 ^ (1 + length (filter strided two_stages)))"
    by (simp add: variant_config_def n)
  have d: "\<not> (weights ?cfg = Some ''imagenet'' \<and> include_top ?cfg
            \<and> [Some 3, Some 3, Some 3] =
                (if (case data_format ?cfg of None \<Rightarrow> channels_last | Some f \<Rightarrow> f) = channels_first
                 then [Some 3, Some (case default_size ?cfg of None \<Rightarrow> 224 | Some s \<Rightarrow> s),
                       Some (case default_size ?cfg of None \<Rightarrow> 224 | Some s \<Rightarrow> s)]
                 else [Some (case default_size ?cfg of None \<Rightarrow> 224 | Some s \<Rightarrow> s),
                       Some (case default_size ?cfg of None \<Rightarrow> 224 | Some s \<Rightarrow> s), Some 3]))"
    by (simp add: variant_config_def)
  show ?thesis
    using min_size_rejects_unless_default_shape [where K = channels_last
        and ish = "[Some 3, Some 3, Some 3]" and bl = two_stages and cfg = ?cfg, OF a b c d]
    by (simp add: n)
qed

lemma shape_of_top_classes:
  assumes "include_top cfg"
  shows "shape_of (top cfg df x) = [Some (classes cfg)]"
  using assms by (simp add: top_def Let_def)

lemma eight_strided_ok:
  "list_all (\<lambda>ba. 0 < num_repeat ba \<and> strides ba \<noteq> None \<and> strides ba \<noteq> Some []) eight_strided"
  by (simp add: eight_strided_def list_all_iff)

lemma eight_strided_count: "length (filter strided eight_strided) = 8"
  by (simp add: eight_strided_def strided_def)

text \<open>
  Claim C4 as stated fails: with the ImageNet weights and the top, the input shape
  (224, 224, 3), which is the default shape of B0, is accepted under a minimum size of
  512, and the graph is built up to its output of 1000 classes.
\<close>

theorem small_default_shape_accepted:
  "min_size eight_strided = Inr 512
   \<and> too_small channels_last [Some 224, Some 224, Some 3] 512
   \<and> obtain_input_shape (Some [Some 224, Some 224, Some 3]) 224 512 channels_last True
        (Some ''imagenet'') = Inr [Some 224, Some 224, Some 3]
   \<and> map_option shape_of
        (snd (snd (EfficientNetB0 obtain_input_shape channels_last eight_strided
                     (Some [Some 224, Some 224, Some 3]) True (Some ''imagenet'') None None
                     1000 0.2 0 None)))
      = Some [Some 1000]"
proof -
  let ?cfg = "variant_config 1.0 1.0 224 (Some [Some 224, Some 224, Some 3]) True
                (Some ''imagenet'') None None 1000 0.2 0 None"
  let ?df = "case data_format ?cfg of None \<Rightarrow> channels_last | Some f \<Rightarrow> f"
  have "list_all (\<lambda>ba. strides ba \<noteq> Some []) eight_strided"
    using eight_strided_ok by (simp add: list_all_iff)
  then have m: "min_size eight_strided = Inr 512"
    using min_size_eq [of eight_strided] by (simp add: eight_strided_count)
  have v: "obtain_input_shape (Some [Some 224, Some 224, Some 3]) 224 n channels_last True
             (Some ''imagenet'') = Inr [Some 224, Some 224, Some 3]" for n
    by (simp add: obtain_input_shape_def Let_def)
  have a: "depth_divisor ?cfg \<noteq> 0" by (simp add: variant_config_def)
  have b: "depth_coefficient ?cfg = Some 1" by (simp add: variant_config_def)
  have c: "obtain_input_shape (input_shape ?cfg) (case default_size ?cfg of None \<Rightarrow> 224 | Some s \<Rightarrow> s)
             n ?df (include_top ?cfg) (weights ?cfg) = Inr [Some 224, Some 224, Some 3]" for n
    using v [of n] by (simp add: variant_config_def)
  from build_model_ok [of eight_strided ?cfg 1 obtain_input_shape channels_last, OF eight_strided_ok a b _ c]
  obtain m0 bl' g where bm: "build_model obtain_input_shape channels_last ?cfg eight_strided = (Inr m0, bl', g)"
    by auto
  have g: "g = Some (model_outputs m0)" using build_model_graph [OF bm] .
  obtain hf x where "model_outputs m0 = top ?cfg ?df (head ?cfg ?df hf x)"
    using build_model_head [OF bm] by blast
  moreover have "include_top ?cfg" "classes ?cfg = 1000" by (simp_all add: variant_config_def)
  ultimately have sh: "shape_of (model_outputs m0) = [Some 1000]"
    using shape_of_top_classes [of ?cfg] by simp
  have "\<exists>r. EfficientNet obtain_input_shape channels_last ?cfg eight_strided = (r, bl', g)"
    using bm by (auto simp: EfficientNet_def split: sum.splits)
  then have "snd (snd (EfficientNet obtain_input_shape channels_last ?cfg eight_strided)) = g"
    by auto
  then have "map_option shape_of
        (snd (snd (EfficientNetB0 obtain_input_shape channels_last eight_strided
                     (Some [Some 224, Some 224, Some 3]) True (Some ''imagenet'') None None
                     1000 0.2 0 None))) = Some [Some 1000]"
    using g sh by (simp add: EfficientNetB0_def)
  moreover have "too_small channels_last [Some 224, Some 224, Some 3] 512" by simp
  ultimately show ?thesis using m v [of 512] by simp
qed

section \<open>Properties of the preprocessing\<close>

lemma preprocess_input_pixels:
  "preprocess_input channels_last (NDArray [1, 2, 3] [0, 0, 0, 255, 255, 255]) None
     = Inr (NDArray [1, 2, 3] [- (485 / 229), - (57 / 28), - (406 / 225), 515 / 229, 17 / 7, 66 / 25])"
  by (simp add: preprocess_input_def np_binop_def IMAGENET_MEAN_def IMAGENET_STDDEV_def Let_def
      upt_rec numeral_2_eq_2 numeral_3_eq_3)

lemma np_binop_shape:
  "broadcast_shapes (arr_shape a) (arr_shape b) = Some s
     \<Longrightarrow> \<exists>d. np_binop f a b = Inr (NDArray s d)"
  by (simp add: np_binop_def)

lemma np_binop_error:
  "broadcast_shapes (arr_shape a) (arr_shape b) = None
     \<Longrightarrow> np_binop f a b = Inl (ValueError ''operands could not be broadcast together'')"
  by (simp add: np_binop_def)

lemma preprocess_input_assert:
  "length (arr_shape x) \<noteq> 3 \<or> last (arr_shape x) \<noteq> 3
     \<Longrightarrow> preprocess_input K x df = Inl AssertionError"
  by (auto simp: preprocess_input_def)

lemma channels_last_keeps_shape:
  assumes "arr_shape x = [h, w, 3]"
    and "(case df of None \<Rightarrow> K | Some f \<Rightarrow> f) = channels_last"
  shows "\<exists>d. preprocess_input K x df = Inr (NDArray [h, w, 3] d)"
proof -
  have "broadcast_shapes (arr_shape x) (arr_shape (NDArray [1, 1, 3] IMAGENET_MEAN)) = Some [h, w, 3]"
    using assms(1) by simp
  from np_binop_shape [OF this] obtain d1 where
    d1: "np_binop (-) x (NDArray [1, 1, 3] IMAGENET_MEAN) = Inr (NDArray [h, w, 3] d1)" by blast
  have "broadcast_shapes (arr_shape (NDArray [h, w, 3] d1))
          (arr_shape (NDArray [1, 1, 3] IMAGENET_STDDEV)) = Some [h, w, 3]"
    by simp
  from np_binop_shape [OF this] obtain d2 where
    "np_binop (/) (NDArray [h, w, 3] d1) (NDArray [1, 1, 3] IMAGENET_STDDEV)
       = Inr (NDArray [h, w, 3] d2)" by blast
  then show ?thesis
    using assms d1 by (simp add: preprocess_input_def Let_def)
qed

lemma channels_first_broadcast_error:
  assumes "arr_shape x = [h, w, 3]" and "h \<noteq> 1" and "h \<noteq> 3"
    and "(case df of None \<Rightarrow> K | Some f \<Rightarrow> f) = channels_first"
  shows "preprocess_input K x df = Inl (ValueError ''operands could not be broadcast together'')"
proof -
  have "broadcast_shapes (arr_shape x) (arr_shape (NDArray [3, 1, 1] IMAGENET_MEAN)) = None"
    using assms(1,2,3) by simp
  from np_binop_error [OF this] show ?thesis
    using assms by (simp add: preprocess_input_def Let_def)
qed

lemma channels_first_first_axis_grows:
  assumes "arr_shape x = [1, w, 3]"
    and "(case df of None \<Rightarrow> K | Some f \<Rightarrow> f) = channels_first"
  shows "\<exists>d. preprocess_input K x df = Inr (NDArray [3, w, 3] d)"
proof -
  have "broadcast_shapes (arr_shape x) (arr_shape (NDArray [3, 1, 1] IMAGENET_MEAN)) = Some [3, w, 3]"
    using assms(1) by simp
  from np_binop_shape [OF this] obtain d1 where
    d1: "np_binop (-) x (NDArray [3, 1, 1] IMAGENET_MEAN) = Inr (NDArray [3, w, 3] d1)" by blast
  have "broadcast_shapes (arr_shape (NDArray [3, w, 3] d1))
          (arr_shape (NDArray [3, 1, 1] IMAGENET_STDDEV)) = Some [3, w, 3]"
    by simp
  from np_binop_shape [OF this] obtain d2 where
    "np_binop (/) (NDArray [3, w, 3] d1) (NDArray [3, 1, 1] IMAGENET_STDDEV)
       = Inr (NDArray [3, w, 3] d2)" by blast
  then show ?thesis
    using assms d1 by (simp add: preprocess_input_def Let_def)
qed

text \<open>
  Claim C10. \<open>preprocess_input\<close> fails its assertions on every input that has not three
  axes with a last axis of length 3, whatever the data format. An accepted input is
  normalised with its shape unchanged when the data format is channels-last. When it is
  channels-first the constants are laid along the first axis: an accepted input whose
  first axis has a length other than 1 and 3 raises the broadcasting ValueError, and one
  whose first axis has length 1 comes back with a first axis of length 3.
\<close>

theorem preprocess_input_channels_first:
  "(length (arr_shape x) \<noteq> 3 \<or> last (arr_shape x) \<noteq> 3
      \<longrightarrow> preprocess_input K x df = Inl AssertionError)
   \<and> (arr_shape x = [h, w, 3] \<and> (case df of None \<Rightarrow> K | Some f \<Rightarrow> f) = channels_last
      \<longrightarrow> (\<exists>d. preprocess_input K x df = Inr (NDArray [h, w, 3] d)))
   \<and> (arr_shape x = [h, w, 3] \<and> h \<noteq> 1 \<and> h \<noteq> 3
        \<and> (case df of None \<Rightarrow> K | Some f \<Rightarrow> f) = channels_first
      \<longrightarrow> preprocess_input K x df = Inl (ValueError ''operands could not be broadcast together''))
   \<and> (arr_shape x = [1, w, 3] \<and> (case df of None \<Rightarrow> K | Some f \<Rightarrow> f) = channels_first
      \<longrightarrow> (\<exists>d. preprocess_input K x df = Inr (NDArray [3, w, 3] d)))"
  using preprocess_input_assert channels_last_keeps_shape
    channels_first_broadcast_error channels_first_first_axis_grows
  by blast

theorem preprocess_input_channels_first_witness:
  "preprocess_input channels_last (NDArray [3, 2, 2] [0, 0, 0, 0, 0, 0, 0, 0, 0, 0, 0, 0])
       (Some channels_first) = Inl AssertionError
   \<and> (\<exists>d. preprocess_input channels_last (NDArray [2, 1, 3] [0, 0, 0, 0, 0, 0]) None
            = Inr (NDArray [2, 1, 3] d))
   \<and> preprocess_input channels_last (NDArray [2, 1, 3] [0, 0, 0, 0, 0, 0]) (Some channels_first)
       = Inl (ValueError ''operands could not be broadcast together'')
   \<and> (\<exists>d. preprocess_input channels_last (NDArray [1, 1, 3] [0, 0, 0]) (Some channels_first)
            = Inr (NDArray [3, 1, 3] d))"
  using preprocess_input_channels_first [where x = "NDArray [3, 2, 2] [0, 0, 0, 0, 0, 0, 0, 0, 0, 0, 0, 0]"
      and K = channels_last and df = "Some channels_first"]
    preprocess_input_channels_first [where x = "NDArray [2, 1, 3] [0, 0, 0, 0, 0, 0]"
      and h = 2 and w = 1 and K = channels_last and df = None]
    preprocess_input_channels_first [where x = "NDArray [2, 1, 3] [0, 0, 0, 0, 0, 0]"
      and h = 2 and w = 1 and K = channels_last and df = "Some channels_first"]
    preprocess_input_channels_first [where x = "NDArray [1, 1, 3] [0, 0, 0]"
      and w = 1 and K = channels_last and df = "Some channels_first"]
  by simp

end
